theory Spec2Isabelle
  imports Complex_Main "HOL-Library.Multiset"
begin

section \<open>Data model\<close>

text \<open>
  The multi-length training and validation loops of \<^verbatim>\<open>src/riser/train.py\<close>.
  Python floats (losses, accuracies) are taken as exact rationals, so a statement
  below is about which quantities are added and divided, not about rounding.
  Exceptions raised by the loops themselves are values of \<open>error\<close>.
\<close>

datatype error = KeyError | ZeroDivisionError | AssertionError | FileNotFoundError

text \<open>
  A batch \<^verbatim>\<open>(X, y)\<close> as the data loader collates it: one input and one class label
  per example. \<^verbatim>\<open>len(X)\<close> is the number of examples.
\<close>

type_synonym 'a batch = "('a \<times> nat) list"

definition X_of :: "'a batch \<Rightarrow> 'a list" where
  "X_of b = map fst b"

definition y_of :: "'a batch \<Rightarrow> nat list" where
  "y_of b = map snd b"

text \<open>
  A \<^verbatim>\<open>DataLoader\<close> during one epoch: the batches its iteration yields, so that
  \<^verbatim>\<open>len(loader)\<close> is their number, and \<^verbatim>\<open>len(loader.dataset)\<close>, kept as a
  field of its own because the loops read it without iterating.
\<close>

record 'a loader =
  batches :: "'a batch list"
  dataset_len :: nat

text \<open>A \<^verbatim>\<open>CombinedLoader\<close> over a dict of loaders, in insertion order.\<close>

type_synonym 'a combined_loader = "(string \<times> 'a loader) list"

definition flattened :: "'a combined_loader \<Rightarrow> 'a loader list" where
  "flattened combined_loader = map snd combined_loader"

text \<open>
  One item of the combined iteration: a dict from bucket identifier to a batch or to
  Python's \<^verbatim>\<open>None\<close>. \<open>cb k = None\<close> is a missing key, \<open>cb k = Some None\<close> the
  sentinel of an exhausted loader.
\<close>

type_synonym 'a combined_batches = "string \<rightharpoonup> 'a batch option"

text \<open>
  Modelled from the spec: the iteration of the external \<^verbatim>\<open>CombinedLoader\<close> in mode
  \<^verbatim>\<open>"max_size"\<close>, which is not code of this repository. At each outer step it asks
  every source for its next batch; an exhausted source reports none; the iteration
  stops when every source is exhausted.
\<close>

definition next_batch :: "'b list \<Rightarrow> 'b option" where
  "next_batch bs = (case bs of [] \<Rightarrow> None | b # _ \<Rightarrow> Some b)"

function max_size :: "(string \<times> 'b list) list \<Rightarrow> (string \<rightharpoonup> 'b option) list" where
  "max_size its =
     (if list_all (\<lambda>it. snd it = []) its then []
      else map_of (map (\<lambda>it. (fst it, next_batch (snd it))) its)
           # max_size (map (\<lambda>it. (fst it, tl (snd it))) its))"
  by pat_completeness auto

lemma tl_sum_less:
  "\<not> list_all (\<lambda>it. snd it = []) its \<Longrightarrow>
   sum_list (map (\<lambda>it. length (tl (snd it))) its) < sum_list (map (\<lambda>it. length (snd it)) its)"
proof (induction its)
  case Nil
  then show ?case by simp
next
  case (Cons it its)
  have le: "sum_list (map (\<lambda>it. length (tl (snd it))) its) \<le> sum_list (map (\<lambda>it. length (snd it)) its)"
    by (rule sum_list_mono) simp
  show ?case
  proof (cases "snd it = []")
    case True
    with Cons show ?thesis by simp
  next
    case False
    then have "length (tl (snd it)) < length (snd it)" by (cases "snd it") simp_all
    with le show ?thesis by simp
  qed
qed

termination max_size
  by (relation "measure (\<lambda>its. sum_list (map (\<lambda>it. length (snd it)) its))")
     (simp_all add: o_def tl_sum_less del: length_tl)

definition iterate :: "'a combined_loader \<Rightarrow> 'a combined_batches list" where
  "iterate combined_loader = max_size (map (\<lambda>kl. (fst kl, batches (snd kl))) combined_loader)"

section \<open>Static totals\<close>

definition count_batches_in_combined_loader :: "'a combined_loader \<Rightarrow> nat" where
  "count_batches_in_combined_loader combined_loader =
     fold (\<lambda>loader n_batches. n_batches + length (batches loader)) (flattened combined_loader) 0"

definition count_samples_in_combined_loader :: "'a combined_loader \<Rightarrow> nat" where
  "count_samples_in_combined_loader combined_loader =
     fold (\<lambda>loader n_samples. n_samples + dataset_len loader) (flattened combined_loader) 0"

section \<open>External collaborators\<close>

text \<open>
  A network as the loops see it: its \<^verbatim>\<open>state_dict()\<close> (parameters and buffers) and
  the mode flag that \<^verbatim>\<open>model.train()\<close> and \<^verbatim>\<open>model.eval()\<close> set.
\<close>

record 'sd module =
  state_dict :: 'sd
  training :: bool

text \<open>
  The calls into the tensor framework, as parameters of the loops:
  \<^item> \<open>forward\<close> is \<^verbatim>\<open>model(X)\<close>: one row of class scores per example, and the module
    after the call (a forward pass in training mode updates batch-norm buffers);
  \<^item> \<open>loss_fn\<close> is \<^verbatim>\<open>loss_fn(pred, y).item()\<close>;
  \<^item> \<open>backward_step\<close> is \<^verbatim>\<open>optimizer.zero_grad(); loss.backward(); optimizer.step()\<close>
    for the loss of batch \<open>(X, y)\<close>;
  \<^item> \<open>shuffle\<close> is \<^verbatim>\<open>random.shuffle\<close>: the list as reordered in place, and the
    generator's next state.
  Moving a tensor to the device changes no value and is left out.
\<close>

record ('a, 'sd, 'o, 'g) framework =
  forward :: "'sd module \<Rightarrow> 'a list \<Rightarrow> rat list list \<times> 'sd module"
  loss_fn :: "rat list list \<Rightarrow> nat list \<Rightarrow> rat"
  backward_step :: "'sd module \<Rightarrow> 'o \<Rightarrow> 'a list \<Rightarrow> nat list \<Rightarrow> 'sd module \<times> 'o"
  shuffle :: "'g \<Rightarrow> string list \<Rightarrow> string list \<times> 'g"

section \<open>The training epoch\<close>

text \<open>
  The local variables of \<^verbatim>\<open>train\<close> and the objects it mutates. \<open>writer\<close> holds the
  \<^verbatim>\<open>add_scalar(tag, value, step)\<close> calls, \<open>stdout\<close> the progress lines as
  \<open>(avg_loss, sample, n_samples)\<close>; the two lines printed before the loop are left out.
\<close>

record ('sd, 'o, 'g) train_state =
  t_model :: "'sd module"
  t_optim :: 'o
  t_rng :: 'g
  input_lengths :: "string list"
  total_loss :: rat
  batch_n :: nat
  writer :: "(string \<times> rat \<times> int) list"
  stdout :: "(rat \<times> int \<times> int) list"

text \<open>Lines 53 to 77: one batch of one bucket.\<close>

definition train_batch ::
  "('a, 'sd, 'o, 'g) framework \<Rightarrow> int \<Rightarrow> nat \<Rightarrow> int \<Rightarrow> 'a batch \<Rightarrow>
   ('sd, 'o, 'g) train_state \<Rightarrow> error + ('sd, 'o, 'g) train_state" where
  "train_batch fw epoch n_samples log_freq b st =
     (let X = X_of b; y = y_of b;
          (pred, m1) = forward fw (t_model st) X;
          loss = loss_fn fw pred y;
          total = total_loss st + loss;
          (m2, o2) = backward_step fw m1 (t_optim st) X y;
          st1 = st\<lparr>t_model := m2, t_optim := o2, total_loss := total\<rparr>
      in if batch_n st \<noteq> 0 then
           (if log_freq = 0 then Inl ZeroDivisionError
            else if int (batch_n st) mod log_freq = 0 then
              (let sample = int (batch_n st) * int (length X);
                   global_step = epoch * int n_samples + sample;
                   avg_loss = total / of_nat (batch_n st)
               in Inr (st1\<lparr>stdout := stdout st @ [(avg_loss, sample, int n_samples)],
                           writer := writer st @ [(''training loss'', avg_loss, global_step)],
                           batch_n := batch_n st + 1\<rparr>))
            else Inr (st1\<lparr>batch_n := batch_n st + 1\<rparr>))
         else Inr (st1\<lparr>batch_n := batch_n st + 1\<rparr>))"

text \<open>Lines 47 to 77: the buckets of one combined step, in the order given.\<close>

fun train_lengths ::
  "('a, 'sd, 'o, 'g) framework \<Rightarrow> int \<Rightarrow> nat \<Rightarrow> int \<Rightarrow> 'a combined_batches \<Rightarrow>
   string list \<Rightarrow> ('sd, 'o, 'g) train_state \<Rightarrow> error + ('sd, 'o, 'g) train_state" where
  "train_lengths fw epoch n_samples log_freq cb [] st = Inr st"
| "train_lengths fw epoch n_samples log_freq cb (l # ls) st =
     (case cb l of
        None \<Rightarrow> Inl KeyError
      | Some None \<Rightarrow> train_lengths fw epoch n_samples log_freq cb ls st
      | Some (Some b) \<Rightarrow>
          (case train_batch fw epoch n_samples log_freq b st of
             Inl e \<Rightarrow> Inl e
           | Inr st' \<Rightarrow> train_lengths fw epoch n_samples log_freq cb ls st'))"

text \<open>Lines 44 to 77: the outer loop; the order is shuffled in place at every step.\<close>

fun train_steps ::
  "('a, 'sd, 'o, 'g) framework \<Rightarrow> int \<Rightarrow> nat \<Rightarrow> int \<Rightarrow> 'a combined_batches list \<Rightarrow>
   ('sd, 'o, 'g) train_state \<Rightarrow> error + ('sd, 'o, 'g) train_state" where
  "train_steps fw epoch n_samples log_freq [] st = Inr st"
| "train_steps fw epoch n_samples log_freq (cb # cbs) st =
     (let (order, g) = shuffle fw (t_rng st) (input_lengths st);
          st1 = st\<lparr>input_lengths := order, t_rng := g\<rparr>
      in case train_lengths fw epoch n_samples log_freq cb order st1 of
           Inl e \<Rightarrow> Inl e
         | Inr st2 \<Rightarrow> train_steps fw epoch n_samples log_freq cbs st2)"

text \<open>
  \<^verbatim>\<open>train\<close>: the average loss it returns, with the state it leaves behind (the model,
  the optimizer, the random generator, the metrics sink).
\<close>

definition train_init ::
  "'sd module \<Rightarrow> 'o \<Rightarrow> 'g \<Rightarrow> (string \<times> rat \<times> int) list \<Rightarrow> ('sd, 'o, 'g) train_state" where
  "train_init model optimizer g w =
     \<lparr>t_model = model\<lparr>training := True\<rparr>, t_optim = optimizer, t_rng = g,
      input_lengths = [''2s'', ''3s'', ''4s''], total_loss = 0, batch_n = 0,
      writer = w, stdout = []\<rparr>"

definition train ::
  "('a, 'sd, 'o, 'g) framework \<Rightarrow> 'a combined_loader \<Rightarrow> 'sd module \<Rightarrow> 'o \<Rightarrow> 'g \<Rightarrow>
   (string \<times> rat \<times> int) list \<Rightarrow> int \<Rightarrow> int \<Rightarrow> error + rat \<times> ('sd, 'o, 'g) train_state" where
  "train fw dataloader model optimizer g w epoch log_freq =
     (let n_samples = count_samples_in_combined_loader dataloader;
          n_batches = count_batches_in_combined_loader dataloader
      in case train_steps fw epoch n_samples log_freq (iterate dataloader)
                (train_init model optimizer g w) of
           Inl e \<Rightarrow> Inl e
         | Inr st \<Rightarrow>
             if n_batches = 0 then Inl ZeroDivisionError
             else Inr (total_loss st / of_nat n_batches, st))"

section \<open>The validation epoch\<close>

text \<open>
  \<^verbatim>\<open>pred.argmax(1)\<close>: for a row of class scores, the index of its first maximal
  value. A row has at least one score; the empty row is given index 0.
\<close>

primrec first_index :: "rat list \<Rightarrow> rat \<Rightarrow> nat" where
  "first_index [] v = 0"
| "first_index (x # xs) v = (if x = v then 0 else Suc (first_index xs v))"

definition argmax :: "rat list \<Rightarrow> nat" where
  "argmax row = (case row of [] \<Rightarrow> 0 | r # rs \<Rightarrow> first_index row (fold max rs r))"

text \<open>
  \<^verbatim>\<open>(pred.argmax(1) == y).type(torch.float).sum().item()\<close>: the number of
  examples whose argmax class equals the label. The network returns one row per
  example, so rows and labels pair up.
\<close>

definition count_correct :: "rat list list \<Rightarrow> nat list \<Rightarrow> nat" where
  "count_correct pred y = length (filter (\<lambda>py. argmax (fst py) = snd py) (zip pred y))"

record 'sd val_state =
  v_model :: "'sd module"
  v_total_loss :: rat
  n_correct :: rat

text \<open>Lines 97 to 105: one batch of one bucket. No gradient is computed and no optimizer is called.\<close>

definition validate_batch ::
  "('a, 'sd, 'o, 'g) framework \<Rightarrow> 'a batch \<Rightarrow> 'sd val_state \<Rightarrow> 'sd val_state" where
  "validate_batch fw b st =
     (let X = X_of b; y = y_of b;
          (pred, m1) = forward fw (v_model st) X
      in st\<lparr>v_model := m1,
             v_total_loss := v_total_loss st + loss_fn fw pred y,
             n_correct := n_correct st + of_nat (count_correct pred y)\<rparr>)"

text \<open>Lines 91 to 105: the buckets of one combined step.\<close>

fun validate_lengths ::
  "('a, 'sd, 'o, 'g) framework \<Rightarrow> 'a combined_batches \<Rightarrow> string list \<Rightarrow>
   'sd val_state \<Rightarrow> error + 'sd val_state" where
  "validate_lengths fw cb [] st = Inr st"
| "validate_lengths fw cb (l # ls) st =
     (case cb l of
        None \<Rightarrow> Inl KeyError
      | Some None \<Rightarrow> validate_lengths fw cb ls st
      | Some (Some b) \<Rightarrow> validate_lengths fw cb ls (validate_batch fw b st))"

text \<open>Lines 90 to 105: the outer loop, always in the order 2s, 3s, 4s.\<close>

fun validate_steps ::
  "('a, 'sd, 'o, 'g) framework \<Rightarrow> 'a combined_batches list \<Rightarrow> 'sd val_state \<Rightarrow>
   error + 'sd val_state" where
  "validate_steps fw [] st = Inr st"
| "validate_steps fw (cb # cbs) st =
     (case validate_lengths fw cb [''2s'', ''3s'', ''4s''] st of
        Inl e \<Rightarrow> Inl e
      | Inr st' \<Rightarrow> validate_steps fw cbs st')"

definition validate_init :: "'sd module \<Rightarrow> 'sd val_state" where
  "validate_init model = \<lparr>v_model = model\<lparr>training := False\<rparr>, v_total_loss = 0, n_correct = 0\<rparr>"

text \<open>
  \<^verbatim>\<open>validate\<close>: the pair it returns, with the module as the call leaves it. The
  line it prints holds the same two numbers and is left out.
\<close>

definition validate ::
  "('a, 'sd, 'o, 'g) framework \<Rightarrow> 'a combined_loader \<Rightarrow> 'sd module \<Rightarrow>
   error + (rat \<times> rat) \<times> 'sd module" where
  "validate fw dataloader model =
     (let n_samples = count_samples_in_combined_loader dataloader;
          n_batches = count_batches_in_combined_loader dataloader
      in case validate_steps fw (iterate dataloader) (validate_init model) of
           Inl e \<Rightarrow> Inl e
         | Inr st \<Rightarrow>
             if n_batches = 0 then Inl ZeroDivisionError
             else if n_samples = 0 then Inl ZeroDivisionError
             else Inr ((v_total_loss st / of_nat n_batches,
                        n_correct st / of_nat n_samples * 100), v_model st))"

section \<open>The epoch driver\<close>

text \<open>
  The two files \<^verbatim>\<open>main\<close> writes:
  \<^verbatim>\<open>{exp_dir}/{exp_id}_{start_epoch}_best_model.pth\<close> and
  \<^verbatim>\<open>{exp_dir}/{exp_id}_latest_model.pth\<close>.
\<close>

datatype ckpt = Best_model int | Latest_model

text \<open>
  The variables of \<^verbatim>\<open>main\<close> from line 186 on. \<open>saved\<close> holds the
  \<^verbatim>\<open>torch.save\<close> calls in order. The wall-clock metrics \<^verbatim>\<open>train_t\<close> and
  \<^verbatim>\<open>val_t\<close> are not modelled.
\<close>

record ('sd, 'o, 'g) driver_state =
  d_model :: "'sd module"
  d_optim :: 'o
  d_rng :: 'g
  d_writer :: "(string \<times> rat \<times> int) list"
  d_stdout :: "(rat \<times> int \<times> int) list"
  saved :: "(ckpt \<times> 'sd) list"
  best_acc :: rat
  best_epoch :: int

text \<open>
  Lines 188 to 192. \<open>files\<close> is the experiment directory before the run:
  \<^verbatim>\<open>torch.load\<close> of a file that is not there raises before the assertion is reached.
\<close>

definition restore ::
  "(string \<rightharpoonup> 'sd) \<Rightarrow> string option \<Rightarrow> int \<Rightarrow> 'sd module \<Rightarrow> error + 'sd module" where
  "restore files checkpt start_epoch model =
     (case checkpt of
        Some c \<Rightarrow>
          (case files c of
             None \<Rightarrow> Inl FileNotFoundError
           | Some sd \<Rightarrow>
               if start_epoch > 0 then Inr (model\<lparr>state_dict := sd\<rparr>)
               else Inl AssertionError)
      | None \<Rightarrow> if start_epoch = 0 then Inr model else Inl AssertionError)"

text \<open>Lines 234 to 243: the checkpointing of one epoch.\<close>

definition checkpoint ::
  "int \<Rightarrow> int \<Rightarrow> rat \<Rightarrow> ('sd, 'o, 'g) driver_state \<Rightarrow> ('sd, 'o, 'g) driver_state" where
  "checkpoint start_epoch t val_acc st =
     (let st1 = (if val_acc > best_acc st
                 then st\<lparr>best_acc := val_acc, best_epoch := t,
                         saved := saved st @ [(Best_model start_epoch, state_dict (d_model st))]\<rparr>
                 else st)
      in st1\<lparr>saved := saved st1 @ [(Latest_model, state_dict (d_model st1))]\<rparr>)"

text \<open>
  Lines 209 to 243: one epoch. \<open>train_loader t\<close> is the training stream as its
  loaders deliver it in epoch \<open>t\<close> (they reshuffle); the validation loaders do not.
\<close>

definition run_epoch ::
  "('a, 'sd, 'o, 'g) framework \<Rightarrow> (int \<Rightarrow> 'a combined_loader) \<Rightarrow> 'a combined_loader \<Rightarrow>
   int \<Rightarrow> int \<Rightarrow> ('sd, 'o, 'g) driver_state \<Rightarrow> error + ('sd, 'o, 'g) driver_state" where
  "run_epoch fw train_loader val_loader start_epoch t st =
     (case train fw (train_loader t) (d_model st) (d_optim st) (d_rng st) (d_writer st) t 100 of
        Inl e \<Rightarrow> Inl e
      | Inr (train_loss, ts) \<Rightarrow>
          (case validate fw val_loader (t_model ts) of
             Inl e \<Rightarrow> Inl e
           | Inr ((val_loss, val_acc), m) \<Rightarrow>
               Inr (checkpoint start_epoch t val_acc
                     (st\<lparr>d_model := m, d_optim := t_optim ts, d_rng := t_rng ts,
                         d_writer := writer ts @
                           [(''train_loss'', train_loss, t), (''val_loss'', val_loss, t),
                            (''val_acc'', val_acc, t),
                            (''train - val loss'', train_loss - val_loss, t)],
                         d_stdout := d_stdout st @ stdout ts\<rparr>))))"

text \<open>Line 208: \<^verbatim>\<open>for t in range(start_epoch, config.n_epochs)\<close>, from \<open>t\<close> on.\<close>

function epochs ::
  "('a, 'sd, 'o, 'g) framework \<Rightarrow> (int \<Rightarrow> 'a combined_loader) \<Rightarrow> 'a combined_loader \<Rightarrow>
   int \<Rightarrow> int \<Rightarrow> int \<Rightarrow> ('sd, 'o, 'g) driver_state \<Rightarrow> error + ('sd, 'o, 'g) driver_state" where
  "epochs fw train_loader val_loader start_epoch t n_epochs st =
     (if t < n_epochs then
        (case run_epoch fw train_loader val_loader start_epoch t st of
           Inl e \<Rightarrow> Inl e
         | Inr st' \<Rightarrow> epochs fw train_loader val_loader start_epoch (t + 1) n_epochs st')
      else Inr st)"
  by pat_completeness auto

termination epochs
  by (relation "measure (\<lambda>(fw, tl, vl, s, t, n, st). nat (n - t))") auto

declare max_size.simps [simp del]
declare epochs.simps [simp del]

text \<open>Lines 197 to 207: the state the epoch loop starts from.\<close>

definition driver_init :: "'sd module \<Rightarrow> 'o \<Rightarrow> 'g \<Rightarrow> ('sd, 'o, 'g) driver_state" where
  "driver_init model optimizer g =
     \<lparr>d_model = model, d_optim = optimizer, d_rng = g, d_writer = [], d_stdout = [],
      saved = [], best_acc = 0, best_epoch = 0\<rparr>"

text \<open>
  \<^verbatim>\<open>main\<close> from line 186 on, given the objects the lines before it build: the
  loaders, the network, the configured number of epochs. \<open>new_optimizer\<close> is
  \<^verbatim>\<open>torch.optim.Adam(model.parameters(), ...)\<close>.
\<close>

definition main ::
  "('a, 'sd, 'o, 'g) framework \<Rightarrow> (string \<rightharpoonup> 'sd) \<Rightarrow> string option \<Rightarrow> int \<Rightarrow> int \<Rightarrow>
   (int \<Rightarrow> 'a combined_loader) \<Rightarrow> 'a combined_loader \<Rightarrow> 'sd module \<Rightarrow> ('sd module \<Rightarrow> 'o) \<Rightarrow>
   'g \<Rightarrow> error + ('sd, 'o, 'g) driver_state" where
  "main fw files checkpt start_epoch n_epochs train_loader val_loader model new_optimizer g =
     (case restore files checkpt start_epoch model of
        Inl e \<Rightarrow> Inl e
      | Inr model' \<Rightarrow>
          epochs fw train_loader val_loader start_epoch start_epoch n_epochs
            (driver_init model' (new_optimizer model') g))"

text \<open>
  Lines 151 to 165: the combined loader \<^verbatim>\<open>main\<close> builds, from one loader per
  input length.
\<close>

definition three_buckets :: "'a loader \<Rightarrow> 'a loader \<Rightarrow> 'a loader \<Rightarrow> 'a combined_loader" where
  "three_buckets l2 l3 l4 = [(''2s'', l2), (''3s'', l3), (''4s'', l4)]"

section \<open>What an epoch processes, as a list\<close>

text \<open>
  The definitions of this section are not code of the repository: they name the
  batches the loops meet, so that the theorems can say which batches were processed
  and in what order. \<open>present cb order\<close> lists the buckets of one combined step that
  hold a batch, in the order given; \<open>scheduled\<close> does so for a whole epoch, one order
  per step.
\<close>

definition present :: "'a combined_batches \<Rightarrow> string list \<Rightarrow> (string \<times> 'a batch) list" where
  "present cb order =
     concat (map (\<lambda>l. case cb l of Some (Some b) \<Rightarrow> [(l, b)] | _ \<Rightarrow> []) order)"

fun scheduled :: "'a combined_batches list \<Rightarrow> string list list \<Rightarrow> (string \<times> 'a batch) list" where
  "scheduled (cb # cbs) (order # orders) = present cb order @ scheduled cbs orders"
| "scheduled _ _ = []"

text \<open>
  The orders that \<open>n\<close> successive calls of the shuffle give, each applied to the
  result of the one before, and the order and generator they leave behind.
\<close>

fun draws :: "('a, 'sd, 'o, 'g) framework \<Rightarrow> 'g \<Rightarrow> string list \<Rightarrow> nat \<Rightarrow> string list list" where
  "draws fw g il 0 = []"
| "draws fw g il (Suc n) = (let (order, g') = shuffle fw g il in order # draws fw g' order n)"

fun drawn :: "('a, 'sd, 'o, 'g) framework \<Rightarrow> 'g \<Rightarrow> string list \<Rightarrow> nat \<Rightarrow> string list \<times> 'g" where
  "drawn fw g il 0 = (il, g)"
| "drawn fw g il (Suc n) = (let (order, g') = shuffle fw g il in drawn fw g' order n)"

text \<open>The schedule of a training epoch and of a validation epoch.\<close>

definition train_schedule ::
  "('a, 'sd, 'o, 'g) framework \<Rightarrow> 'g \<Rightarrow> 'a combined_batches list \<Rightarrow> (string \<times> 'a batch) list" where
  "train_schedule fw g cbs = scheduled cbs (draws fw g [''2s'', ''3s'', ''4s''] (length cbs))"

definition validate_schedule :: "'a combined_batches list \<Rightarrow> (string \<times> 'a batch) list" where
  "validate_schedule cbs = scheduled cbs (replicate (length cbs) [''2s'', ''3s'', ''4s''])"

text \<open>The batches of one bucket in a schedule, and those a bucket delivers over the steps.\<close>

definition of_bucket :: "string \<Rightarrow> (string \<times> 'a batch) list \<Rightarrow> 'a batch list" where
  "of_bucket k sched = map snd (filter (\<lambda>p. fst p = k) sched)"

definition delivered :: "string \<Rightarrow> 'a combined_batches list \<Rightarrow> 'a batch list" where
  "delivered k cbs = concat (map (\<lambda>cb. case cb k of Some (Some b) \<Rightarrow> [b] | _ \<Rightarrow> []) cbs)"

text \<open>Lines 53 to 77, and lines 97 to 105, run over a list of batches one after the other.\<close>

fun train_batches ::
  "('a, 'sd, 'o, 'g) framework \<Rightarrow> int \<Rightarrow> nat \<Rightarrow> int \<Rightarrow> 'a batch list \<Rightarrow>
   ('sd, 'o, 'g) train_state \<Rightarrow> error + ('sd, 'o, 'g) train_state" where
  "train_batches fw epoch n_samples log_freq [] st = Inr st"
| "train_batches fw epoch n_samples log_freq (b # bs) st =
     (case train_batch fw epoch n_samples log_freq b st of
        Inl e \<Rightarrow> Inl e
      | Inr st' \<Rightarrow> train_batches fw epoch n_samples log_freq bs st')"

definition validate_batches ::
  "('a, 'sd, 'o, 'g) framework \<Rightarrow> 'a batch list \<Rightarrow> 'sd val_state \<Rightarrow> 'sd val_state" where
  "validate_batches fw bs st = fold (validate_batch fw) bs st"

text \<open>
  The individual losses of a list of batches processed one after the other by a
  training epoch: each is computed by the model as the steps before it left it.
\<close>

fun batch_losses ::
  "('a, 'sd, 'o, 'g) framework \<Rightarrow> 'a batch list \<Rightarrow> 'sd module \<Rightarrow> 'o \<Rightarrow> rat list" where
  "batch_losses fw [] m opt = []"
| "batch_losses fw (b # bs) m opt =
     (let (pred, m1) = forward fw m (X_of b);
          (m2, o2) = backward_step fw m1 opt (X_of b) (y_of b)
      in loss_fn fw pred (y_of b) # batch_losses fw bs m2 o2)"

text \<open>The contract of \<^verbatim>\<open>random.shuffle\<close>: the list it leaves is a permutation.\<close>

definition permutes :: "('a, 'sd, 'o, 'g) framework \<Rightarrow> bool" where
  "permutes fw = (\<forall>g xs. mset (fst (shuffle fw g xs)) = mset xs)"

section \<open>What the theorems are stated with\<close>

text \<open>
  The loss and the number of correct predictions of each batch of a list processed
  one after the other by a validation epoch.
\<close>

fun val_outcomes ::
  "('a, 'sd, 'o, 'g) framework \<Rightarrow> 'a batch list \<Rightarrow> 'sd module \<Rightarrow> (rat \<times> nat) list" where
  "val_outcomes fw [] m = []"
| "val_outcomes fw (b # bs) m =
     (let (pred, m1) = forward fw m (X_of b)
      in (loss_fn fw pred (y_of b), count_correct pred (y_of b)) # val_outcomes fw bs m1)"

text \<open>The combined loader has a source under each of the three names the loops look up.\<close>

definition has_buckets :: "'a combined_loader \<Rightarrow> bool" where
  "has_buckets cl = (list_all (\<lambda>l. l \<in> fst ` set cl) [''2s'', ''3s'', ''4s''])"

text \<open>
  The contract of a forward pass in evaluation mode: it leaves the module as it was
  (batch-norm buffers are updated in training mode only).
\<close>

definition eval_is_pure :: "('a, 'sd, 'o, 'g) framework \<Rightarrow> bool" where
  "eval_is_pure fw = (\<forall>m X. \<not> training m \<longrightarrow> snd (forward fw m X) = m)"

text \<open>
  The positions in an epoch's schedule, counted from 0, at which line 69 lets a
  progress record through: the counter is then the position.
\<close>

definition log_points :: "int \<Rightarrow> nat \<Rightarrow> nat list" where
  "log_points log_freq n = filter (\<lambda>k. k \<noteq> 0 \<and> int k mod log_freq = 0) [0..<n]"

text \<open>Two combined steps hold the same entries under 2s, 3s and 4s.\<close>

definition same_lengths :: "'a combined_batches \<Rightarrow> 'a combined_batches \<Rightarrow> bool" where
  "same_lengths cb cb' = (cb ''2s'' = cb' ''2s'' \<and> cb ''3s'' = cb' ''3s'' \<and> cb ''4s'' = cb' ''4s'')"

text \<open>The values recorded under the tag \<^verbatim>\<open>val_acc\<close>, in order.\<close>

definition val_accs :: "(string \<times> rat \<times> int) list \<Rightarrow> rat list" where
  "val_accs w = map (\<lambda>r. fst (snd r)) (filter (\<lambda>r. fst r = ''val_acc'') w)"

text \<open>
  What the checkpointing rule of the specification prescribes for a sequence of
  validation accuracies, given the best so far: a best snapshot at every strict
  improvement, and a latest snapshot at every epoch.
\<close>

fun ckpt_kinds :: "int \<Rightarrow> rat \<Rightarrow> rat list \<Rightarrow> ckpt list" where
  "ckpt_kinds s best [] = []"
| "ckpt_kinds s best (a # accs) =
     (if a > best then [Best_model s] else []) @ Latest_model # ckpt_kinds s (max best a) accs"

section \<open>A small instance\<close>

text \<open>
  A network whose state is one number: a training step adds one to it, and it
  classifies example \<open>x\<close> as class 1 exactly when \<open>x\<close> is below a skill read off
  that number. The shuffle rotates the order by one place.
\<close>

definition ex_skill :: "nat \<Rightarrow> nat" where
  "ex_skill sd = [0, 14, 13, 16, 15, 18] ! (sd mod 6)"

definition ex_forward :: "nat module \<Rightarrow> nat list \<Rightarrow> rat list list \<times> nat module" where
  "ex_forward m X =
     (map (\<lambda>x. if x < ex_skill (state_dict m) then [0, 1] else [1, 0]) X, m)"

definition ex_loss :: "rat list list \<Rightarrow> nat list \<Rightarrow> rat" where
  "ex_loss pred y = of_nat (length y - count_correct pred y) / 2"

definition ex_fw :: "(nat, nat, nat, nat) framework" where
  "ex_fw = \<lparr>forward = ex_forward, loss_fn = ex_loss,
            backward_step = (\<lambda>m opt X y. (m\<lparr>state_dict := state_dict m + 1\<rparr>, opt + 1)),
            shuffle = (\<lambda>g xs. (rotate1 xs, g + 1))\<rparr>"

definition ex_train :: "nat combined_loader" where
  "ex_train = [(''2s'', \<lparr>batches = [[(0, 1), (1, 1)]], dataset_len = 2\<rparr>),
               (''3s'', \<lparr>batches = [], dataset_len = 0\<rparr>),
               (''4s'', \<lparr>batches = [], dataset_len = 0\<rparr>)]"

definition ex_val :: "nat combined_loader" where
  "ex_val = [(''2s'', \<lparr>batches = [map (\<lambda>x. (x, 1)) [0..<10]], dataset_len = 10\<rparr>),
             (''3s'', \<lparr>batches = [map (\<lambda>x. (x, 1)) [10..<15], map (\<lambda>x. (x, 1)) [15..<20]],
                      dataset_len = 10\<rparr>),
             (''4s'', \<lparr>batches = [], dataset_len = 0\<rparr>)]"

definition ex_model :: "nat module" where
  "ex_model = \<lparr>state_dict = 0, training = False\<rparr>"

text \<open>
  The same framework with a forward pass that changes the state dict while in
  training mode, as a batch-norm layer updates its buffers, and not otherwise.
\<close>

definition ex_bn_fw :: "(nat, nat, nat, nat) framework" where
  "ex_bn_fw = ex_fw\<lparr>forward :=
     (\<lambda>m X. (fst (ex_forward m X),
              if training m then m\<lparr>state_dict := state_dict m + 6\<rparr> else m))\<rparr>"

text \<open>A combined loader of three sources that are not named 2s, 3s, 4s: one batch each.\<close>

definition ex_other :: "nat combined_loader" where
  "ex_other = [(''1s'', \<lparr>batches = [[(0, 1)]], dataset_len = 1\<rparr>),
               (''2s'', \<lparr>batches = [[(1, 1)]], dataset_len = 1\<rparr>),
               (''3s'', \<lparr>batches = [[(2, 1)]], dataset_len = 1\<rparr>)]"

text \<open>A combined step in which the bucket 2s is exhausted.\<close>

definition ex_cb :: "nat combined_batches" where
  "ex_cb = [''2s'' \<mapsto> None, ''3s'' \<mapsto> Some [(15, 1), (16, 0)], ''4s'' \<mapsto> None]"

definition ex_st :: "(nat, nat, nat) train_state" where
  "ex_st = (train_init ex_model 0 0 [])\<lparr>total_loss := 3, batch_n := 2\<rparr>"

definition ex_vst :: "nat val_state" where
  "ex_vst = (validate_init ex_model)\<lparr>v_total_loss := 3, n_correct := 5\<rparr>"

text \<open>A bucket of two batches beside a bucket of five.\<close>

definition ex_25 :: "nat combined_loader" where
  "ex_25 = three_buckets
     \<lparr>batches = [[(0, 1)], [(1, 1)]], dataset_len = 2\<rparr>
     \<lparr>batches = [[(2, 1)], [(3, 1)], [(4, 1)], [(5, 1)], [(6, 1)]], dataset_len = 5\<rparr>
     \<lparr>batches = [], dataset_len = 0\<rparr>"

text \<open>A training stream of three batches of sizes 2, 3 and 1, and what an epoch over it leaves.\<close>

definition ex_log :: "nat combined_loader" where
  "ex_log = [(''2s'', \<lparr>batches = [[(0, 1), (1, 1)], [(20, 1), (21, 1), (22, 1)], [(0, 1)]],
                       dataset_len = 6\<rparr>),
             (''3s'', \<lparr>batches = [], dataset_len = 0\<rparr>),
             (''4s'', \<lparr>batches = [], dataset_len = 0\<rparr>)]"

text \<open>A loader with no batch.\<close>

definition ex_none :: "nat loader" where
  "ex_none = \<lparr>batches = [], dataset_len = 0\<rparr>"

text \<open>The training stream with a fourth source, named 5s, that holds one batch.\<close>

definition ex_four :: "nat combined_loader" where
  "ex_four = ex_train @ [(''5s'', \<lparr>batches = [[(5, 1)]], dataset_len = 1\<rparr>)]"

definition ex_log_end :: "(nat, nat, nat) train_state" where
  "ex_log_end =
     \<lparr>t_model = \<lparr>state_dict = 3, training = True\<rparr>, t_optim = 3, t_rng = 3,
      input_lengths = [''2s'', ''3s'', ''4s''], total_loss = 5 / 2, batch_n = 3,
      writer = [(''training loss'', 5 / 2, 15), (''training loss'', 5 / 4, 14)],
      stdout = [(5 / 2, 3, 6), (5 / 4, 2, 6)]\<rparr>"

definition ex_train_end :: "(nat, nat, nat) train_state" where
  "ex_train_end =
     \<lparr>t_model = \<lparr>state_dict = 1, training = True\<rparr>, t_optim = 1, t_rng = 1,
      input_lengths = [''3s'', ''4s'', ''2s''], total_loss = 1, batch_n = 1,
      writer = [], stdout = []\<rparr>"

definition ex_vend :: "nat val_state" where
  "ex_vend = \<lparr>v_model = \<lparr>state_dict = 0, training = False\<rparr>, v_total_loss = 1, n_correct = 0\<rparr>"

text \<open>A run of five epochs from scratch, its first epoch and its end.\<close>

definition ex_run :: "error + (nat, nat, nat) driver_state" where
  "ex_run = main ex_fw Map.empty None 0 5 (\<lambda>t. ex_train) ex_val ex_model (\<lambda>m. 0) 0"

definition ex_first :: "(nat, nat, nat) driver_state" where
  "ex_first =
     \<lparr>d_model = \<lparr>state_dict = 1, training = False\<rparr>, d_optim = 1, d_rng = 1,
      d_writer = [(''train_loss'', 1, 0), (''val_loss'', 1, 0), (''val_acc'', 70, 0),
                  (''train - val loss'', 0, 0)],
      d_stdout = [], saved = [(Best_model 0, 1), (Latest_model, 1)],
      best_acc = 70, best_epoch = 0\<rparr>"

definition ex_fin :: "(nat, nat, nat) driver_state" where
  "ex_fin =
     \<lparr>d_model = \<lparr>state_dict = 5, training = False\<rparr>, d_optim = 5, d_rng = 5,
      d_writer =
        [(''train_loss'', 1, 0), (''val_loss'', 1, 0), (''val_acc'', 70, 0),
         (''train - val loss'', 0, 0),
         (''train_loss'', 0, 1), (''val_loss'', 7 / 6, 1), (''val_acc'', 65, 1),
         (''train - val loss'', - (7 / 6), 1),
         (''train_loss'', 0, 2), (''val_loss'', 2 / 3, 2), (''val_acc'', 80, 2),
         (''train - val loss'', - (2 / 3), 2),
         (''train_loss'', 0, 3), (''val_loss'', 5 / 6, 3), (''val_acc'', 75, 3),
         (''train - val loss'', - (5 / 6), 3),
         (''train_loss'', 0, 4), (''val_loss'', 1 / 3, 4), (''val_acc'', 90, 4),
         (''train - val loss'', - (1 / 3), 4)],
      d_stdout = [],
      saved = [(Best_model 0, 1), (Latest_model, 1), (Latest_model, 2), (Best_model 0, 3),
               (Latest_model, 3), (Latest_model, 4), (Best_model 0, 5), (Latest_model, 5)],
      best_acc = 90, best_epoch = 4\<rparr>"

section \<open>Errors of the loops\<close>

lemma train_batch_error: "train_batch fw epoch ns lf b st = Inl e \<Longrightarrow> e = ZeroDivisionError"
  by (auto simp: train_batch_def Let_def split: prod.splits if_splits)

lemma train_lengths_error:
  "train_lengths fw epoch ns lf cb ls st = Inl e \<Longrightarrow> e = KeyError \<or> e = ZeroDivisionError"
  by (induction ls arbitrary: st) (auto split: option.splits sum.splits dest: train_batch_error)

lemma train_steps_error:
  "train_steps fw epoch ns lf cbs st = Inl e \<Longrightarrow> e = KeyError \<or> e = ZeroDivisionError"
  by (induction cbs arbitrary: st) (auto split: prod.splits sum.splits dest: train_lengths_error)

lemma train_error:
  "train fw dl m opt g w epoch lf = Inl e \<Longrightarrow> e = KeyError \<or> e = ZeroDivisionError"
  by (auto simp: train_def Let_def split: sum.splits if_splits dest: train_steps_error)

lemma validate_lengths_error: "validate_lengths fw cb ls st = Inl e \<Longrightarrow> e = KeyError"
  by (induction ls arbitrary: st) (auto split: option.splits)

lemma validate_steps_error: "validate_steps fw cbs st = Inl e \<Longrightarrow> e = KeyError"
  by (induction cbs arbitrary: st)
     (auto split: sum.splits dest: validate_lengths_error simp del: validate_lengths.simps)

lemma validate_error:
  "validate fw dl m = Inl e \<Longrightarrow> e = KeyError \<or> e = ZeroDivisionError"
  by (auto simp: validate_def Let_def split: sum.splits if_splits dest: validate_steps_error)

lemma run_epoch_error:
  "run_epoch fw trl vl s t st = Inl e \<Longrightarrow> e = KeyError \<or> e = ZeroDivisionError"
  by (auto simp: run_epoch_def split: sum.splits prod.splits dest: train_error validate_error)

lemma epochs_error:
  "epochs fw trl vl s t n st = Inl e \<Longrightarrow> e = KeyError \<or> e = ZeroDivisionError"
proof (induction fw trl vl s t n st rule: epochs.induct)
  case (1 fw trl vl s t n st)
  show ?case
  proof (cases "t < n")
    case False
    with "1.prems" show ?thesis by (simp add: epochs.simps)
  next
    case True
    show ?thesis
    proof (cases "run_epoch fw trl vl s t st")
      case (Inl e')
      with True "1.prems" have "e' = e" by (simp add: epochs.simps)
      with Inl show ?thesis using run_epoch_error by blast
    next
      case (Inr st')
      with True "1.prems" have "epochs fw trl vl s (t + 1) n st' = Inl e"
        by (simp add: epochs.simps)
      with "1.IH"[OF True Inr] show ?thesis by simp
    qed
  qed
qed

section \<open>The instance, evaluated\<close>

lemma ex_fw_permutes: "permutes ex_fw"
proof -
  have "mset (rotate1 xs) = mset xs" for xs :: "string list"
    by (cases xs) simp_all
  then show ?thesis by (simp add: permutes_def ex_fw_def)
qed

lemma ex_bn_fw_eval_is_pure: "eval_is_pure ex_bn_fw"
  by (simp add: eval_is_pure_def ex_bn_fw_def)

lemma ex_bn_val_run:
  "validate ex_bn_fw ex_val (ex_model\<lparr>state_dict := 1, training := True\<rparr>) =
     Inr ((1, 70), \<lparr>state_dict = 1, training = False\<rparr>)"
  "snd (forward ex_bn_fw (ex_model\<lparr>state_dict := 1, training := True\<rparr>) [0]) =
     \<lparr>state_dict = 7, training = True\<rparr>"
  by code_simp+

lemma ex_25_steps:
  "length (iterate ex_25) = 5"
  "map (\<lambda>cb. cb ''2s'') (iterate ex_25) =
     [Some (Some [(0, 1)]), Some (Some [(1, 1)]), Some None, Some None, Some None]"
  "map_of ex_25 ''2s'' = Some \<lparr>batches = [[(0, 1)], [(1, 1)]], dataset_len = 2\<rparr>"
  by code_simp+

lemma ex_counts:
  "count_batches_in_combined_loader ex_log = 3"
  "count_batches_in_combined_loader ex_val = 3"
  "count_samples_in_combined_loader ex_val = 20"
  "count_batches_in_combined_loader ex_train = 1"
  "count_batches_in_combined_loader ex_four = 2"
  "has_buckets ex_log" "has_buckets ex_val"
  by code_simp+

lemma ex_log_run: "train ex_fw ex_log ex_model 0 0 [] 2 1 = Inr (5 / 6, ex_log_end)"
  by code_simp

lemma ex_log_losses:
  "batch_losses ex_fw (map snd (train_schedule ex_fw 0 (iterate ex_log)))
     (ex_model\<lparr>training := True\<rparr>) 0 = [1, 3 / 2, 0]"
  by code_simp

lemma ex_val_run:
  "validate ex_fw ex_val (ex_model\<lparr>state_dict := 1, training := True\<rparr>) =
     Inr ((1, 70), \<lparr>state_dict = 1, training = False\<rparr>)"
  by code_simp

lemma ex_val_outcomes:
  "val_outcomes ex_fw (map snd (validate_schedule (iterate ex_val)))
     (ex_model\<lparr>state_dict := 1, training := False\<rparr>) = [(0, 10), (1 / 2, 4), (5 / 2, 0)]"
  by code_simp

lemma ex_four_runs:
  "train ex_fw ex_four ex_model 0 0 [] 0 100 = Inr (1 / 2, ex_train_end)"
  "train ex_fw ex_train ex_model 0 0 [] 0 100 = Inr (1, ex_train_end)"
  "list_all2 same_lengths (iterate ex_four) (iterate ex_train)"
  by code_simp+

lemma ex_four_loops:
  "train_steps ex_fw 0 3 100 (iterate ex_four) (train_init ex_model 0 0 []) = Inr ex_train_end"
  "validate_steps ex_fw (iterate ex_four) (validate_init ex_model) = Inr ex_vend"
  "train_schedule ex_fw 0 (iterate ex_four) = [(''2s'', [(0, 1), (1, 1)])]"
  "validate_schedule (iterate ex_four) = [(''2s'', [(0, 1), (1, 1)])]"
  by code_simp+

lemma ex_first_epoch:
  "run_epoch ex_fw (\<lambda>t. ex_train) ex_val 0 0 (driver_init ex_model 0 0) = Inr ex_first"
  by code_simp

lemma ex_run_result: "ex_run = Inr ex_fin"
  by code_simp

section \<open>The resume precondition\<close>

text \<open>
  C5. The driver ends in the assertion error exactly when the starting epoch does not
  fit the snapshot: a snapshot that was loaded with a starting epoch that is not
  positive, or no snapshot with a starting epoch other than zero. A named snapshot
  with a non-positive starting epoch fails in every case. Every consistent
  combination goes on to the epoch loop, from the restored model.
\<close>

theorem resume_precondition:
  "((main fw files checkpt start_epoch n_epochs trl vl model new_optimizer g = Inl AssertionError) =
      (case checkpt of
         None \<Rightarrow> start_epoch \<noteq> 0
       | Some c \<Rightarrow> files c \<noteq> None \<and> \<not> 0 < start_epoch)) \<and>
   (checkpt \<noteq> None \<and> \<not> 0 < start_epoch \<longrightarrow>
      isl (main fw files checkpt start_epoch n_epochs trl vl model new_optimizer g)) \<and>
   (checkpt = None \<and> start_epoch = 0 \<longrightarrow>
      main fw files checkpt start_epoch n_epochs trl vl model new_optimizer g =
      epochs fw trl vl 0 0 n_epochs (driver_init model (new_optimizer model) g)) \<and>
   (\<forall>c sd. checkpt = Some c \<and> files c = Some sd \<and> 0 < start_epoch \<longrightarrow>
      main fw files checkpt start_epoch n_epochs trl vl model new_optimizer g =
      epochs fw trl vl start_epoch start_epoch n_epochs
        (driver_init (model\<lparr>state_dict := sd\<rparr>) (new_optimizer (model\<lparr>state_dict := sd\<rparr>)) g))"
proof -
  have no_assert: "epochs fw trl vl s t n st \<noteq> Inl AssertionError" for s t n st
    using epochs_error[of fw trl vl s t n st AssertionError] by auto
  show ?thesis
    by (auto simp: main_def restore_def no_assert split: option.splits)
qed

theorem resume_precondition_witness:
  "main ex_fw [''latest.pth'' \<mapsto> 7] (Some ''latest.pth'') 0 3 (\<lambda>t. ex_train) ex_val ex_model
     (\<lambda>m. 0) 0 = Inl AssertionError \<and>
   main ex_fw [''latest.pth'' \<mapsto> 7] None 3 3 (\<lambda>t. ex_train) ex_val ex_model
     (\<lambda>m. 0) 0 = Inl AssertionError \<and>
   main ex_fw [''latest.pth'' \<mapsto> 7] (Some ''latest.pth'') 3 3 (\<lambda>t. ex_train) ex_val ex_model
     (\<lambda>m. 0) 0 = Inr (driver_init (ex_model\<lparr>state_dict := 7\<rparr>) 0 0)"
  using resume_precondition[of ex_fw "[''latest.pth'' \<mapsto> 7]" "Some ''latest.pth''" 0 3
          "\<lambda>t. ex_train" ex_val ex_model "\<lambda>m. 0" 0]
        resume_precondition[of ex_fw "[''latest.pth'' \<mapsto> 7]" None 3 3
          "\<lambda>t. ex_train" ex_val ex_model "\<lambda>m. 0" 0]
        resume_precondition[of ex_fw "[''latest.pth'' \<mapsto> 7]" "Some ''latest.pth''" 3 3
          "\<lambda>t. ex_train" ex_val ex_model "\<lambda>m. 0" 0]
  by (simp add: epochs.simps)

section \<open>The loops as sequential runs\<close>

lemma train_batch_frame:
  "train_batch fw e ns lf b (st\<lparr>input_lengths := il, t_rng := g\<rparr>) =
     map_sum id (\<lambda>s. s\<lparr>input_lengths := il, t_rng := g\<rparr>) (train_batch fw e ns lf b st)"
  by (simp add: train_batch_def Let_def split: prod.splits)

lemma train_batches_frame:
  "train_batches fw e ns lf bs (st\<lparr>input_lengths := il, t_rng := g\<rparr>) =
     map_sum id (\<lambda>s. s\<lparr>input_lengths := il, t_rng := g\<rparr>) (train_batches fw e ns lf bs st)"
proof (induction bs arbitrary: st)
  case Nil
  show ?case by simp
next
  case (Cons b bs)
  show ?case
    by (cases "train_batch fw e ns lf b st") (simp_all add: train_batch_frame Cons.IH)
qed

lemma train_batch_keeps:
  "train_batch fw e ns lf b st = Inr st' \<Longrightarrow>
     input_lengths st' = input_lengths st \<and> t_rng st' = t_rng st"
  by (auto simp: train_batch_def Let_def split: prod.splits if_splits)

lemma train_batches_keeps:
  "train_batches fw e ns lf bs st = Inr st' \<Longrightarrow>
     input_lengths st' = input_lengths st \<and> t_rng st' = t_rng st"
proof (induction bs arbitrary: st)
  case Nil
  then show ?case by simp
next
  case (Cons b bs)
  then show ?case
    by (cases "train_batch fw e ns lf b st") (auto dest: train_batch_keeps)
qed

lemma train_batches_append:
  "train_batches fw e ns lf (xs @ ys) st =
     (case train_batches fw e ns lf xs st of
        Inl err \<Rightarrow> Inl err
      | Inr st' \<Rightarrow> train_batches fw e ns lf ys st')"
  by (induction xs arbitrary: st) (auto split: sum.splits)

lemma present_Cons:
  "present cb (l # ls) = (case cb l of Some (Some b) \<Rightarrow> [(l, b)] | _ \<Rightarrow> []) @ present cb ls"
  by (simp add: present_def)

lemma train_lengths_present:
  "train_lengths fw e ns lf cb order st = Inr st' \<Longrightarrow>
     train_batches fw e ns lf (map snd (present cb order)) st = Inr st'"
proof (induction order arbitrary: st)
  case Nil
  then show ?case by (simp add: present_def)
next
  case (Cons l ls)
  then show ?case
    by (auto simp: present_Cons split: option.splits sum.splits)
qed

lemma train_steps_scheduled:
  "train_steps fw e ns lf cbs st = Inr st' \<Longrightarrow>
     train_batches fw e ns lf
       (map snd (scheduled cbs (draws fw (t_rng st) (input_lengths st) (length cbs))))
       (st\<lparr>input_lengths := fst (drawn fw (t_rng st) (input_lengths st) (length cbs)),
           t_rng := snd (drawn fw (t_rng st) (input_lengths st) (length cbs))\<rparr>) = Inr st'"
proof (induction cbs arbitrary: st)
  case Nil
  then show ?case by simp
next
  case (Cons cb cbs)
  obtain order g1 where sh: "shuffle fw (t_rng st) (input_lengths st) = (order, g1)"
    by (cases "shuffle fw (t_rng st) (input_lengths st)")
  define st1 where "st1 = st\<lparr>input_lengths := order, t_rng := g1\<rparr>"
  from Cons.prems sh obtain st2 where
    tl: "train_lengths fw e ns lf cb order st1 = Inr st2" and
    ts: "train_steps fw e ns lf cbs st2 = Inr st'"
    by (auto simp: st1_def split: sum.splits)
  let ?bs = "map snd (present cb order)"
  from train_lengths_present[OF tl] have tb1: "train_batches fw e ns lf ?bs st1 = Inr st2" .
  then obtain st0 where tb0: "train_batches fw e ns lf ?bs st = Inr st0"
    and st2: "st2 = st0\<lparr>input_lengths := order, t_rng := g1\<rparr>"
    unfolding st1_def train_batches_frame by (cases "train_batches fw e ns lf ?bs st") auto
  from train_batches_keeps[OF tb1] have keep: "input_lengths st2 = order" "t_rng st2 = g1"
    by (simp_all add: st1_def)
  let ?il = "fst (drawn fw g1 order (length cbs))"
  let ?g = "snd (drawn fw g1 order (length cbs))"
  from Cons.IH[OF ts] keep
  have rest: "train_batches fw e ns lf (map snd (scheduled cbs (draws fw g1 order (length cbs))))
                (st2\<lparr>input_lengths := ?il, t_rng := ?g\<rparr>) = Inr st'" by simp
  have first: "train_batches fw e ns lf ?bs (st\<lparr>input_lengths := ?il, t_rng := ?g\<rparr>)
                 = Inr (st2\<lparr>input_lengths := ?il, t_rng := ?g\<rparr>)"
    by (simp add: train_batches_frame tb0 st2)
  show ?case
    using sh first rest by (simp add: train_batches_append)
qed

lemma train_batch_counts:
  "train_batch fw e ns lf b st = Inr st' \<Longrightarrow>
     batch_n st' = batch_n st + 1 \<and>
     total_loss st' = total_loss st + loss_fn fw (fst (forward fw (t_model st) (X_of b))) (y_of b) \<and>
     (t_model st', t_optim st') =
       backward_step fw (snd (forward fw (t_model st) (X_of b))) (t_optim st) (X_of b) (y_of b)"
  by (auto simp: train_batch_def Let_def split: prod.splits if_splits)

lemma train_batches_counts:
  "train_batches fw e ns lf bs st = Inr st' \<Longrightarrow>
     batch_n st' = batch_n st + length bs \<and>
     total_loss st' = total_loss st + sum_list (batch_losses fw bs (t_model st) (t_optim st))"
proof (induction bs arbitrary: st)
  case Nil
  then show ?case by simp
next
  case (Cons b bs)
  from Cons.prems obtain st1 where
    one: "train_batch fw e ns lf b st = Inr st1" and
    rest: "train_batches fw e ns lf bs st1 = Inr st'"
    by (auto split: sum.splits)
  from train_batch_counts[OF one] Cons.IH[OF rest] show ?case
    by (auto simp: Let_def split: prod.splits)
qed

lemma train_batch_total:
  "lf \<noteq> 0 \<Longrightarrow> \<exists>st'. train_batch fw e ns lf b st = Inr st'"
  by (auto simp: train_batch_def Let_def split: prod.splits)

lemma train_lengths_total:
  "lf \<noteq> 0 \<Longrightarrow> \<forall>l\<in>set order. cb l \<noteq> None \<Longrightarrow>
     \<exists>st'. train_lengths fw e ns lf cb order st = Inr st'"
proof (induction order arbitrary: st)
  case Nil
  then show ?case by simp
next
  case (Cons l ls)
  then obtain v where v: "cb l = Some v" by auto
  show ?case
  proof (cases v)
    case None
    with v Cons show ?thesis by simp
  next
    case (Some b)
    from train_batch_total[OF Cons.prems(1), of fw e ns b st]
    obtain st1 where "train_batch fw e ns lf b st = Inr st1" by blast
    with v Some Cons show ?thesis by simp
  qed
qed

lemma train_lengths_keeps:
  "train_lengths fw e ns lf cb order st = Inr st' \<Longrightarrow>
     input_lengths st' = input_lengths st \<and> t_rng st' = t_rng st"
  using train_batches_keeps[OF train_lengths_present] by blast

lemma train_steps_total:
  assumes "lf \<noteq> 0" and "permutes fw"
  shows "\<forall>cb\<in>set cbs. \<forall>l\<in>set (input_lengths st). cb l \<noteq> None \<Longrightarrow>
         \<exists>st'. train_steps fw e ns lf cbs st = Inr st'"
proof (induction cbs arbitrary: st)
  case Nil
  then show ?case by simp
next
  case (Cons cb cbs)
  obtain order g1 where sh: "shuffle fw (t_rng st) (input_lengths st) = (order, g1)"
    by (cases "shuffle fw (t_rng st) (input_lengths st)")
  with assms(2) have "mset order = mset (input_lengths st)"
    unfolding permutes_def by (metis fst_conv)
  then have same: "set order = set (input_lengths st)" by (rule mset_eq_setD)
  define st1 where "st1 = st\<lparr>input_lengths := order, t_rng := g1\<rparr>"
  from Cons.prems same have "\<forall>l\<in>set order. cb l \<noteq> None" by simp
  from train_lengths_total[OF assms(1) this, of fw e ns st1]
  obtain st2 where tl: "train_lengths fw e ns lf cb order st1 = Inr st2" by blast
  from train_lengths_keeps[OF tl] have "input_lengths st2 = order" by (simp add: st1_def)
  with Cons.prems same have "\<forall>cb\<in>set cbs. \<forall>l\<in>set (input_lengths st2). cb l \<noteq> None" by simp
  from Cons.IH[OF this] obtain st' where "train_steps fw e ns lf cbs st2 = Inr st'" by blast
  with sh tl show ?case by (simp add: st1_def)
qed

text \<open>The orders drawn, and what they schedule.\<close>

lemma length_draws: "length (draws fw g il n) = n"
  by (induction n arbitrary: g il) (auto split: prod.splits)

lemma draws_permute:
  "permutes fw \<Longrightarrow> order \<in> set (draws fw g il n) \<Longrightarrow> mset order = mset il"
proof (induction n arbitrary: g il)
  case 0
  then show ?case by simp
next
  case (Suc n)
  obtain o1 g1 where sh: "shuffle fw g il = (o1, g1)" by (cases "shuffle fw g il")
  with Suc.prems(1) have m: "mset o1 = mset il" unfolding permutes_def by (metis fst_conv)
  from Suc.prems(2) sh have "order = o1 \<or> order \<in> set (draws fw g1 o1 n)" by simp
  then show ?case
  proof
    assume "order = o1" with m show ?thesis by simp
  next
    assume "order \<in> set (draws fw g1 o1 n)"
    from Suc.IH[OF Suc.prems(1) this] m show ?thesis by simp
  qed
qed

lemma filter_tag_present:
  "map snd (filter (\<lambda>p. fst p = k) (present cb order)) =
     concat (map (\<lambda>l. case cb k of Some (Some b) \<Rightarrow> [b] | _ \<Rightarrow> []) (filter (\<lambda>l. l = k) order))"
proof (induction order)
  case Nil
  show ?case by (simp add: present_def)
next
  case (Cons l ls)
  then show ?case by (auto simp: present_Cons split: option.splits)
qed

lemma filter_eq_once:
  assumes "mset order = mset il" and "distinct il" and "k \<in> set il"
  shows "filter (\<lambda>l. l = k) order = [k]"
proof -
  have "filter (\<lambda>l. l = k) order = replicate (count (mset order) k) k"
    by (induction order) auto
  moreover from assms have "count (mset order) k = 1"
    by (simp add: distinct_count_atmost_1)
  ultimately show ?thesis by simp
qed

lemma scheduled_bucket:
  assumes "\<forall>order\<in>set orders. mset order = mset il" and "distinct il" and "k \<in> set il"
    and "length orders = length cbs"
  shows "map snd (filter (\<lambda>p. fst p = k) (scheduled cbs orders)) = delivered k cbs"
  using assms(1,4)
proof (induction cbs orders rule: scheduled.induct)
  case (1 cb cbs order orders)
  then have "filter (\<lambda>l. l = k) order = [k]"
    using filter_eq_once[OF _ assms(2,3)] by simp
  with 1 show ?case
    by (simp add: filter_tag_present delivered_def)
qed (simp_all add: delivered_def)

lemma scheduled_tags:
  assumes "\<forall>order\<in>set orders. mset order = mset il"
  shows "fst ` set (scheduled cbs orders) \<subseteq> set il"
  using assms
proof (induction cbs orders rule: scheduled.induct)
  case (1 cb cbs order orders)
  then have "mset order = mset il" by simp
  then have "set order = set il" by (rule mset_eq_setD)
  moreover have "fst ` set (present cb order) \<subseteq> set order"
    by (auto simp: present_def split: option.splits)
  ultimately show ?case using 1 by auto
qed simp_all

lemma length_by_tags:
  assumes "fst ` set xs \<subseteq> {a, b, c}" and "a \<noteq> b" and "a \<noteq> c" and "b \<noteq> c"
  shows "length xs = length (filter (\<lambda>p. fst p = a) xs) + length (filter (\<lambda>p. fst p = b) xs)
           + length (filter (\<lambda>p. fst p = c) xs)"
  using assms by (induction xs) auto

text \<open>The combined iteration: its keys, and what each bucket delivers.\<close>

lemma map_of_map_snd:
  "map_of (map (\<lambda>it. (fst it, f (snd it))) its) k = map_option f (map_of its k)"
  by (induction its) auto

lemma max_size_keys:
  "cb \<in> set (max_size its) \<Longrightarrow> (cb l \<noteq> None) = (l \<in> fst ` set its)"
proof (induction its rule: max_size.induct)
  case (1 its)
  show ?case
  proof (cases "list_all (\<lambda>it. snd it = []) its")
    case True
    with "1.prems" show ?thesis by (simp add: max_size.simps)
  next
    case False
    with "1.prems" have
      "cb = map_of (map (\<lambda>it. (fst it, next_batch (snd it))) its) \<or>
       cb \<in> set (max_size (map (\<lambda>it. (fst it, tl (snd it))) its))"
      by (simp add: max_size.simps[of its])
    then show ?thesis
    proof
      assume "cb = map_of (map (\<lambda>it. (fst it, next_batch (snd it))) its)"
      then show ?thesis
        by (simp add: map_of_map_snd map_of_eq_None_iff)
    next
      assume "cb \<in> set (max_size (map (\<lambda>it. (fst it, tl (snd it))) its))"
      from "1.IH"[OF False this] show ?thesis by (simp add: image_image)
    qed
  qed
qed

lemma max_size_delivered:
  "map_of its k = Some bs \<Longrightarrow> delivered k (max_size its) = bs"
proof (induction its arbitrary: bs rule: max_size.induct)
  case (1 its)
  from "1.prems" have mem: "(k, bs) \<in> set its" by (rule map_of_SomeD)
  show ?case
  proof (cases "list_all (\<lambda>it. snd it = []) its")
    case True
    with mem have "bs = []" by (auto simp: list_all_iff)
    with True show ?thesis by (simp add: max_size.simps delivered_def)
  next
    case False
    from "1.prems" have "map_of (map (\<lambda>it. (fst it, tl (snd it))) its) k = Some (tl bs)"
      by (simp add: map_of_map_snd)
    from "1.IH"[OF False this]
    have rest: "delivered k (max_size (map (\<lambda>it. (fst it, tl (snd it))) its)) = tl bs" .
    have first: "map_of (map (\<lambda>it. (fst it, next_batch (snd it))) its) k = Some (next_batch bs)"
      using "1.prems" by (simp add: map_of_map_snd)
    have "delivered k (max_size its) =
            (case next_batch bs of Some b \<Rightarrow> [b] | None \<Rightarrow> []) @ tl bs"
      using False first rest
      by (simp add: max_size.simps[of its] delivered_def split: option.splits)
    then show ?thesis by (cases bs) (simp_all add: next_batch_def)
  qed
qed

lemma iterate_keys:
  "cb \<in> set (iterate cl) \<Longrightarrow> (cb l \<noteq> None) = (l \<in> fst ` set cl)"
  using max_size_keys[of cb "map (\<lambda>kl. (fst kl, batches (snd kl))) cl" l]
  unfolding iterate_def by (simp add: image_image)

lemma iterate_delivered:
  "map_of cl k = Some ld \<Longrightarrow> delivered k (iterate cl) = batches ld"
  unfolding iterate_def
  using max_size_delivered[of "map (\<lambda>kl. (fst kl, batches (snd kl))) cl" k "batches ld"]
  by (simp add: map_of_map_snd)

text \<open>The static totals as sums over the constituent loaders.\<close>

lemma fold_plus_sum_list:
  "fold (\<lambda>x n. n + f x) xs (a::nat) = a + sum_list (map f xs)"
  by (induction xs arbitrary: a) simp_all

lemma count_batches_sum:
  "count_batches_in_combined_loader cl = sum_list (map (\<lambda>kl. length (batches (snd kl))) cl)"
  by (simp add: count_batches_in_combined_loader_def flattened_def fold_plus_sum_list o_def)

lemma count_samples_sum:
  "count_samples_in_combined_loader cl = sum_list (map (\<lambda>kl. dataset_len (snd kl)) cl)"
  by (simp add: count_samples_in_combined_loader_def flattened_def fold_plus_sum_list o_def)

text \<open>Validation as a sequential run.\<close>

lemma validate_lengths_present:
  "validate_lengths fw cb order st = Inr st' \<Longrightarrow>
     st' = validate_batches fw (map snd (present cb order)) st"
proof (induction order arbitrary: st)
  case Nil
  then show ?case by (simp add: present_def validate_batches_def)
next
  case (Cons l ls)
  then show ?case
    by (auto simp: present_Cons validate_batches_def split: option.splits)
qed

lemma validate_steps_scheduled:
  "validate_steps fw cbs st = Inr st' \<Longrightarrow>
     st' = validate_batches fw (map snd (validate_schedule cbs)) st"
proof (induction cbs arbitrary: st)
  case Nil
  then show ?case by (simp add: validate_schedule_def validate_batches_def)
next
  case (Cons cb cbs)
  from Cons.prems obtain st1 where
    one: "validate_lengths fw cb [''2s'', ''3s'', ''4s''] st = Inr st1" and
    rest: "validate_steps fw cbs st1 = Inr st'"
    by (auto split: sum.splits simp del: validate_lengths.simps)
  from validate_lengths_present[OF one] Cons.IH[OF rest] show ?case
    by (simp add: validate_schedule_def validate_batches_def)
qed

lemma validate_lengths_total:
  "\<forall>l\<in>set order. cb l \<noteq> None \<Longrightarrow> \<exists>st'. validate_lengths fw cb order st = Inr st'"
  by (induction order arbitrary: st) (auto split: option.splits)

lemma validate_steps_total:
  "\<forall>cb\<in>set cbs. \<forall>l\<in>{''2s'', ''3s'', ''4s''}. cb l \<noteq> None \<Longrightarrow>
     \<exists>st'. validate_steps fw cbs st = Inr st'"
proof (induction cbs arbitrary: st)
  case Nil
  then show ?case by simp
next
  case (Cons cb cbs)
  then have "\<forall>l\<in>set [''2s'', ''3s'', ''4s'']. cb l \<noteq> None" by simp
  from validate_lengths_total[OF this, of fw st]
  obtain st1 where one: "validate_lengths fw cb [''2s'', ''3s'', ''4s''] st = Inr st1" by blast
  from Cons have "\<exists>st'. validate_steps fw cbs st1 = Inr st'" by simp
  with one show ?case by (simp del: validate_lengths.simps)
qed

section \<open>The exhaustion sentinel\<close>

lemma train_lengths_append:
  "train_lengths fw epoch ns lf cb (xs @ ys) st =
     (case train_lengths fw epoch ns lf cb xs st of
        Inl e \<Rightarrow> Inl e
      | Inr st' \<Rightarrow> train_lengths fw epoch ns lf cb ys st')"
  by (induction xs arbitrary: st) (auto split: option.splits sum.splits)

lemma validate_lengths_append:
  "validate_lengths fw cb (xs @ ys) st =
     (case validate_lengths fw cb xs st of
        Inl e \<Rightarrow> Inl e
      | Inr st' \<Rightarrow> validate_lengths fw cb ys st')"
  by (induction xs arbitrary: st) (auto split: option.splits sum.splits)

lemma max_size_nth:
  "map_of its k = Some bs \<Longrightarrow> i < length (max_size its) \<Longrightarrow>
     (max_size its ! i) k = Some (if i < length bs then Some (bs ! i) else None)"
proof (induction its arbitrary: bs i rule: max_size.induct)
  case (1 its)
  show ?case
  proof (cases "list_all (\<lambda>it. snd it = []) its")
    case True
    with "1.prems"(2) show ?thesis by (simp add: max_size.simps)
  next
    case False
    let ?rest = "map (\<lambda>it. (fst it, tl (snd it))) its"
    have ms: "max_size its = map_of (map (\<lambda>it. (fst it, next_batch (snd it))) its) # max_size ?rest"
      using False by (simp add: max_size.simps[of its])
    show ?thesis
    proof (cases i)
      case 0
      with ms "1.prems"(1) show ?thesis
        by (cases bs) (simp_all add: map_of_map_snd next_batch_def)
    next
      case (Suc j)
      from "1.prems"(1) have tl: "map_of ?rest k = Some (tl bs)"
        by (simp add: map_of_map_snd)
      from "1.prems"(2) ms Suc have j: "j < length (max_size ?rest)" by simp
      from "1.IH"[OF False tl j] ms Suc show ?thesis
        by (cases bs) (simp_all add: nth_tl)
    qed
  qed
qed

lemma iterate_nth:
  "map_of cl k = Some ld \<Longrightarrow> i < length (iterate cl) \<Longrightarrow>
     (iterate cl ! i) k = Some (if i < length (batches ld) then Some (batches ld ! i) else None)"
  unfolding iterate_def
  using max_size_nth[of "map (\<lambda>kl. (fst kl, batches (snd kl))) cl" k "batches ld" i]
  by (simp add: map_of_map_snd)

text \<open>
  C7. A bucket whose entry in the combined batch is the sentinel is skipped: the
  whole state of the loop (the batch counter, the running total loss, the count of
  correct predictions, the model) is what it was, so the inner loop over an order
  that names the bucket does what the loop over the order without it does. A source
  that has delivered all its batches holds the sentinel at every later step of the
  combined iteration, so those steps leave the state as it was.
\<close>

theorem exhausted_bucket_is_skipped:
  "(cb l = Some None \<longrightarrow>
      train_lengths fw epoch ns lf cb [l] st = Inr st \<and>
      validate_lengths fw cb [l] vst = Inr vst \<and>
      train_lengths fw epoch ns lf cb (pre @ l # post) st =
        train_lengths fw epoch ns lf cb (pre @ post) st \<and>
      validate_lengths fw cb (pre @ l # post) vst = validate_lengths fw cb (pre @ post) vst) \<and>
   (map_of dataloader l = Some loader \<and> i < length (iterate dataloader) \<and>
    length (batches loader) \<le> i \<longrightarrow>
      (iterate dataloader ! i) l = Some None \<and>
      train_lengths fw epoch ns lf (iterate dataloader ! i) [l] st = Inr st \<and>
      validate_lengths fw (iterate dataloader ! i) [l] vst = Inr vst)"
proof (intro conjI impI)
  assume "map_of dataloader l = Some loader \<and> i < length (iterate dataloader) \<and>
    length (batches loader) \<le> i"
  then have none: "(iterate dataloader ! i) l = Some None"
    using iterate_nth[of dataloader l loader i] by simp
  then show "(iterate dataloader ! i) l = Some None"
    and "train_lengths fw epoch ns lf (iterate dataloader ! i) [l] st = Inr st"
    and "validate_lengths fw (iterate dataloader ! i) [l] vst = Inr vst"
    by simp_all
qed (simp_all add: train_lengths_append validate_lengths_append split: sum.splits)

theorem exhausted_bucket_is_skipped_witness:
  "ex_cb ''2s'' = Some None \<and>
   train_lengths ex_fw 0 20 100 ex_cb [''2s''] ex_st = Inr ex_st \<and>
   validate_lengths ex_fw ex_cb [''2s''] ex_vst = Inr ex_vst \<and>
   train_lengths ex_fw 0 20 100 ex_cb ([''3s''] @ ''2s'' # [''4s'']) ex_st =
     train_lengths ex_fw 0 20 100 ex_cb ([''3s''] @ [''4s'']) ex_st \<and>
   validate_lengths ex_fw ex_cb ([''3s''] @ ''2s'' # [''4s'']) ex_vst =
     validate_lengths ex_fw ex_cb ([''3s''] @ [''4s'']) ex_vst \<and>
   map_of ex_25 ''2s'' = Some \<lparr>batches = [[(0, 1)], [(1, 1)]], dataset_len = 2\<rparr> \<and>
   length (iterate ex_25) = 5 \<and>
   (iterate ex_25 ! 2) ''2s'' = Some None \<and>
   (iterate ex_25 ! 3) ''2s'' = Some None \<and>
   (iterate ex_25 ! 4) ''2s'' = Some None \<and>
   train_lengths ex_fw 0 7 100 (iterate ex_25 ! 2) [''2s''] ex_st = Inr ex_st \<and>
   train_lengths ex_fw 0 7 100 (iterate ex_25 ! 3) [''2s''] ex_st = Inr ex_st \<and>
   train_lengths ex_fw 0 7 100 (iterate ex_25 ! 4) [''2s''] ex_st = Inr ex_st \<and>
   validate_lengths ex_fw (iterate ex_25 ! 4) [''2s''] ex_vst = Inr ex_vst"
proof -
  have h: "ex_cb ''2s'' = Some None" by (simp add: ex_cb_def)
  note inst = exhausted_bucket_is_skipped[of ex_cb "''2s''" ex_fw 0 _ 100 ex_st ex_vst
                "[''3s'']" "[''4s'']" ex_25
                "\<lparr>batches = [[(0, 1)], [(1, 1)]], dataset_len = 2\<rparr>"]
  show ?thesis
    using h inst[of 20 2] inst[of 7 2] inst[of 7 3] inst[of 7 4] ex_25_steps(1,3)
    by simp
qed

section \<open>Every batch once\<close>

lemma three_buckets_keys:
  "cb \<in> set (iterate (three_buckets l2 l3 l4)) \<Longrightarrow>
     cb ''2s'' \<noteq> None \<and> cb ''3s'' \<noteq> None \<and> cb ''4s'' \<noteq> None"
  using iterate_keys[of cb "three_buckets l2 l3 l4" "''2s''"]
        iterate_keys[of cb "three_buckets l2 l3 l4" "''3s''"]
        iterate_keys[of cb "three_buckets l2 l3 l4" "''4s''"]
  by (simp add: three_buckets_def)

lemma three_buckets_delivered:
  "delivered ''2s'' (iterate (three_buckets l2 l3 l4)) = batches l2"
  "delivered ''3s'' (iterate (three_buckets l2 l3 l4)) = batches l3"
  "delivered ''4s'' (iterate (three_buckets l2 l3 l4)) = batches l4"
  by (simp_all add: iterate_delivered three_buckets_def)

lemma schedule_once_each:
  assumes "\<forall>order\<in>set orders. mset order = mset [''2s'', ''3s'', ''4s'']"
    and "length orders = length (iterate (three_buckets l2 l3 l4))"
  shows "of_bucket ''2s'' (scheduled (iterate (three_buckets l2 l3 l4)) orders) = batches l2 \<and>
         of_bucket ''3s'' (scheduled (iterate (three_buckets l2 l3 l4)) orders) = batches l3 \<and>
         of_bucket ''4s'' (scheduled (iterate (three_buckets l2 l3 l4)) orders) = batches l4 \<and>
         length (scheduled (iterate (three_buckets l2 l3 l4)) orders) =
           length (batches l2) + length (batches l3) + length (batches l4)"
proof -
  let ?cbs = "iterate (three_buckets l2 l3 l4)"
  let ?s = "scheduled ?cbs orders"
  have d: "distinct [''2s'', ''3s'', ''4s'']" by simp
  have b2: "of_bucket ''2s'' ?s = batches l2"
    unfolding of_bucket_def
    using scheduled_bucket[OF assms(1) d _ assms(2), of "''2s''"]
    by (simp add: three_buckets_delivered)
  have b3: "of_bucket ''3s'' ?s = batches l3"
    unfolding of_bucket_def
    using scheduled_bucket[OF assms(1) d _ assms(2), of "''3s''"]
    by (simp add: three_buckets_delivered)
  have b4: "of_bucket ''4s'' ?s = batches l4"
    unfolding of_bucket_def
    using scheduled_bucket[OF assms(1) d _ assms(2), of "''4s''"]
    by (simp add: three_buckets_delivered)
  have "fst ` set ?s \<subseteq> {''2s'', ''3s'', ''4s''}"
    using scheduled_tags[OF assms(1), of ?cbs] by simp
  from length_by_tags[OF this]
  have "length ?s = length (of_bucket ''2s'' ?s) + length (of_bucket ''3s'' ?s)
                    + length (of_bucket ''4s'' ?s)"
    by (simp add: of_bucket_def)
  with b2 b3 b4 show ?thesis by simp
qed

text \<open>
  C1, as amended. For the combined stream of the three sources named 2s, 3s and 4s,
  with batch counts n1, n2, n3, any shuffle that permutes and any non-zero log
  interval: the training loop and the validation loop both return; each is the
  sequential run over its schedule, one forward pass per entry; the schedule has
  n1 + n2 + n3 entries, and its entries of each bucket are that source's batches, each
  once and in the source's order, whatever orders the shuffle draws. The batch counter
  of the training loop ends at n1 + n2 + n3.
\<close>

theorem epoch_consumes_each_batch_once:
  assumes "permutes fw" and "log_freq \<noteq> 0"
  shows
    "\<exists>st' vst'.
       train_steps fw epoch n_samples log_freq (iterate (three_buckets l2 l3 l4))
         (train_init model opt g w) = Inr st' \<and>
       train_batches fw epoch n_samples log_freq
         (map snd (train_schedule fw g (iterate (three_buckets l2 l3 l4))))
         ((train_init model opt g w)\<lparr>input_lengths := input_lengths st', t_rng := t_rng st'\<rparr>)
         = Inr st' \<and>
       batch_n st' = length (batches l2) + length (batches l3) + length (batches l4) \<and>
       of_bucket ''2s'' (train_schedule fw g (iterate (three_buckets l2 l3 l4))) = batches l2 \<and>
       of_bucket ''3s'' (train_schedule fw g (iterate (three_buckets l2 l3 l4))) = batches l3 \<and>
       of_bucket ''4s'' (train_schedule fw g (iterate (three_buckets l2 l3 l4))) = batches l4 \<and>
       length (train_schedule fw g (iterate (three_buckets l2 l3 l4))) =
         length (batches l2) + length (batches l3) + length (batches l4) \<and>
       validate_steps fw (iterate (three_buckets l2 l3 l4)) (validate_init model) = Inr vst' \<and>
       vst' = validate_batches fw
                (map snd (validate_schedule (iterate (three_buckets l2 l3 l4))))
                (validate_init model) \<and>
       of_bucket ''2s'' (validate_schedule (iterate (three_buckets l2 l3 l4))) = batches l2 \<and>
       of_bucket ''3s'' (validate_schedule (iterate (three_buckets l2 l3 l4))) = batches l3 \<and>
       of_bucket ''4s'' (validate_schedule (iterate (three_buckets l2 l3 l4))) = batches l4 \<and>
       length (validate_schedule (iterate (three_buckets l2 l3 l4))) =
         length (batches l2) + length (batches l3) + length (batches l4)"
proof -
  let ?cbs = "iterate (three_buckets l2 l3 l4)"
  let ?st0 = "train_init model opt g w"
  let ?n = "length (batches l2) + length (batches l3) + length (batches l4)"
  have il0: "input_lengths ?st0 = [''2s'', ''3s'', ''4s'']" and g0: "t_rng ?st0 = g"
    and n0: "batch_n ?st0 = 0"
    by (simp_all add: train_init_def)
  have keys: "\<forall>cb\<in>set ?cbs. \<forall>l\<in>set (input_lengths ?st0). cb l \<noteq> None"
    using three_buckets_keys[of _ l2 l3 l4] by (auto simp: il0)
  from train_steps_total[OF assms(2,1) keys, of epoch n_samples]
  obtain st' where run: "train_steps fw epoch n_samples log_freq ?cbs ?st0 = Inr st'" by blast
  from train_steps_scheduled[OF run]
  have seq0: "train_batches fw epoch n_samples log_freq (map snd (train_schedule fw g ?cbs))
               (?st0\<lparr>input_lengths := fst (drawn fw g [''2s'', ''3s'', ''4s''] (length ?cbs)),
                     t_rng := snd (drawn fw g [''2s'', ''3s'', ''4s''] (length ?cbs))\<rparr>) = Inr st'"
    by (simp add: il0 g0 train_schedule_def)
  from train_batches_keeps[OF seq0]
  have fin: "input_lengths st' = fst (drawn fw g [''2s'', ''3s'', ''4s''] (length ?cbs))"
            "t_rng st' = snd (drawn fw g [''2s'', ''3s'', ''4s''] (length ?cbs))"
    by simp_all
  from seq0 fin
  have seq: "train_batches fw epoch n_samples log_freq (map snd (train_schedule fw g ?cbs))
               (?st0\<lparr>input_lengths := input_lengths st', t_rng := t_rng st'\<rparr>) = Inr st'"
    by simp
  have tperm: "\<forall>order\<in>set (draws fw g [''2s'', ''3s'', ''4s''] (length ?cbs)).
                 mset order = mset [''2s'', ''3s'', ''4s'']"
    using draws_permute[OF assms(1)] by blast
  from schedule_once_each[OF tperm, of l2 l3 l4]
  have tsched: "of_bucket ''2s'' (train_schedule fw g ?cbs) = batches l2 \<and>
                of_bucket ''3s'' (train_schedule fw g ?cbs) = batches l3 \<and>
                of_bucket ''4s'' (train_schedule fw g ?cbs) = batches l4 \<and>
                length (train_schedule fw g ?cbs) = ?n"
    by (simp add: train_schedule_def length_draws)
  from train_batches_counts[OF seq] tsched have cnt: "batch_n st' = ?n"
    by (simp add: train_init_def)
  have vkeys: "\<forall>cb\<in>set ?cbs. \<forall>l\<in>{''2s'', ''3s'', ''4s''}. cb l \<noteq> None"
    using three_buckets_keys[of _ l2 l3 l4] by auto
  from validate_steps_total[OF vkeys, of fw "validate_init model"]
  obtain vst' where vrun: "validate_steps fw ?cbs (validate_init model) = Inr vst'" by blast
  note vseq = validate_steps_scheduled[OF vrun]
  have vperm: "\<forall>order\<in>set (replicate (length ?cbs) [''2s'', ''3s'', ''4s'']).
                 mset order = mset [''2s'', ''3s'', ''4s'']"
    by simp
  from schedule_once_each[OF vperm, of l2 l3 l4]
  have vsched: "of_bucket ''2s'' (validate_schedule ?cbs) = batches l2 \<and>
                of_bucket ''3s'' (validate_schedule ?cbs) = batches l3 \<and>
                of_bucket ''4s'' (validate_schedule ?cbs) = batches l4 \<and>
                length (validate_schedule ?cbs) = ?n"
    by (simp add: validate_schedule_def)
  from run seq cnt tsched vrun vseq vsched show ?thesis by blast
qed

theorem epoch_consumes_each_batch_once_witness:
  "permutes ex_fw \<and> (100::int) \<noteq> 0 \<and>
   (\<exists>st' vst'.
      train_steps ex_fw 0 20 100
        (iterate (three_buckets (snd (ex_val ! 0)) (snd (ex_val ! 1)) (snd (ex_val ! 2))))
        (train_init ex_model (0::nat) (0::nat) []) = Inr st' \<and>
      batch_n st' = 3 \<and>
      validate_steps ex_fw
        (iterate (three_buckets (snd (ex_val ! 0)) (snd (ex_val ! 1)) (snd (ex_val ! 2))))
        (validate_init ex_model) = Inr vst' \<and>
      length (validate_schedule
        (iterate (three_buckets (snd (ex_val ! 0)) (snd (ex_val ! 1)) (snd (ex_val ! 2))))) = 3)"
proof -
  have p: "permutes ex_fw" by (rule ex_fw_permutes)
  have n: "(100::int) \<noteq> 0" by simp
  have len: "length (batches (snd (ex_val ! 0))) + length (batches (snd (ex_val ! 1)))
               + length (batches (snd (ex_val ! 2))) = 3"
    by (simp add: ex_val_def)
  from epoch_consumes_each_batch_once[OF p n, of 0 20 "snd (ex_val ! 0)" "snd (ex_val ! 1)"
         "snd (ex_val ! 2)" ex_model 0 0 "[]"]
  obtain st' vst' where
    "train_steps ex_fw 0 20 100
        (iterate (three_buckets (snd (ex_val ! 0)) (snd (ex_val ! 1)) (snd (ex_val ! 2))))
        (train_init ex_model 0 0 []) = Inr st'"
    "batch_n st' = length (batches (snd (ex_val ! 0))) + length (batches (snd (ex_val ! 1)))
               + length (batches (snd (ex_val ! 2)))"
    "validate_steps ex_fw
        (iterate (three_buckets (snd (ex_val ! 0)) (snd (ex_val ! 1)) (snd (ex_val ! 2))))
        (validate_init ex_model) = Inr vst'"
    "length (validate_schedule
        (iterate (three_buckets (snd (ex_val ! 0)) (snd (ex_val ! 1)) (snd (ex_val ! 2))))) =
       length (batches (snd (ex_val ! 0))) + length (batches (snd (ex_val ! 1)))
               + length (batches (snd (ex_val ! 2)))"
    by blast
  with p n len show ?thesis by auto
qed

text \<open>
  The claim as stated, for every combined stream of three sources, fails for sources
  under other names: the static count is 3, and both loops raise \<^verbatim>\<open>KeyError\<close>.
\<close>

theorem other_buckets_counterexample:
  "count_batches_in_combined_loader ex_other = 3 \<and>
   train ex_fw ex_other ex_model 0 0 [] 0 100 = Inl KeyError \<and>
   validate ex_fw ex_other ex_model = Inl KeyError"
  by code_simp

section \<open>The result of a validation epoch\<close>

lemma validate_batches_Cons:
  "validate_batches fw (b # bs) st = validate_batches fw bs (validate_batch fw b st)"
  by (simp add: validate_batches_def)

lemma validate_batches_totals:
  "v_total_loss (validate_batches fw bs st) =
     v_total_loss st + sum_list (map fst (val_outcomes fw bs (v_model st))) \<and>
   n_correct (validate_batches fw bs st) =
     n_correct st + of_nat (sum_list (map snd (val_outcomes fw bs (v_model st))))"
proof (induction bs arbitrary: st)
  case Nil
  show ?case by (simp add: validate_batches_def)
next
  case (Cons b bs)
  obtain pred m1 where f: "forward fw (v_model st) (X_of b) = (pred, m1)"
    by (cases "forward fw (v_model st) (X_of b)")
  let ?st1 = "validate_batch fw b st"
  have s1: "v_model ?st1 = m1"
    "v_total_loss ?st1 = v_total_loss st + loss_fn fw pred (y_of b)"
    "n_correct ?st1 = n_correct st + of_nat (count_correct pred (y_of b))"
    by (simp_all add: validate_batch_def f Let_def)
  from Cons.IH[of ?st1] s1 f show ?case
    by (simp add: validate_batches_Cons)
qed

lemma has_buckets_keys:
  assumes "has_buckets cl"
  shows "\<forall>cb\<in>set (iterate cl). \<forall>l\<in>{''2s'', ''3s'', ''4s''}. cb l \<noteq> None"
proof (intro ballI)
  fix cb l assume cb: "cb \<in> set (iterate cl)" and l: "l \<in> {''2s'', ''3s'', ''4s''}"
  from assms l have "l \<in> fst ` set cl" by (auto simp: has_buckets_def)
  with iterate_keys[OF cb, of l] show "cb l \<noteq> None" by simp
qed

text \<open>
  C4. Whenever \<^verbatim>\<open>validate\<close> returns, the pair it returns is: the sum of the losses
  of the batches it processed, divided by the static batch count (the sum of the
  lengths of all constituent loaders); and 100 times the number of examples whose
  argmax class equals the label, divided by the static sample count (the sum of the
  dataset lengths of all constituent loaders, not a count made while iterating). It
  returns whenever the stream has the three buckets and both static totals are not
  zero.
\<close>

theorem validate_result:
  "(validate fw dataloader model = Inr ((avg_loss, acc), m') \<longrightarrow>
      avg_loss =
        sum_list (map fst (val_outcomes fw (map snd (validate_schedule (iterate dataloader)))
                             (model\<lparr>training := False\<rparr>)))
        / of_nat (sum_list (map (\<lambda>kl. length (batches (snd kl))) dataloader)) \<and>
      acc =
        100 * of_nat (sum_list (map snd (val_outcomes fw
                        (map snd (validate_schedule (iterate dataloader)))
                        (model\<lparr>training := False\<rparr>))))
        / of_nat (sum_list (map (\<lambda>kl. dataset_len (snd kl)) dataloader))) \<and>
   (has_buckets dataloader \<and>
    count_batches_in_combined_loader dataloader \<noteq> 0 \<and>
    count_samples_in_combined_loader dataloader \<noteq> 0 \<longrightarrow>
      (\<exists>r. validate fw dataloader model = Inr r))"
proof (intro conjI impI)
  assume ret: "validate fw dataloader model = Inr ((avg_loss, acc), m')"
  then obtain st where
    run: "validate_steps fw (iterate dataloader) (validate_init model) = Inr st" and
    avg: "avg_loss = v_total_loss st / of_nat (count_batches_in_combined_loader dataloader)" and
    acc: "acc = n_correct st / of_nat (count_samples_in_combined_loader dataloader) * 100"
    by (auto simp: validate_def Let_def split: sum.splits if_splits)
  from validate_steps_scheduled[OF run]
  have st: "st = validate_batches fw (map snd (validate_schedule (iterate dataloader)))
                   (validate_init model)" .
  have init: "v_total_loss (validate_init model) = 0" "n_correct (validate_init model) = 0"
    "v_model (validate_init model) = model\<lparr>training := False\<rparr>"
    by (simp_all add: validate_init_def)
  from avg st
  show "avg_loss =
        sum_list (map fst (val_outcomes fw (map snd (validate_schedule (iterate dataloader)))
                             (model\<lparr>training := False\<rparr>)))
        / of_nat (sum_list (map (\<lambda>kl. length (batches (snd kl))) dataloader))"
    by (simp add: validate_batches_totals init count_batches_sum)
  from acc st
  show "acc =
        100 * of_nat (sum_list (map snd (val_outcomes fw
                        (map snd (validate_schedule (iterate dataloader)))
                        (model\<lparr>training := False\<rparr>))))
        / of_nat (sum_list (map (\<lambda>kl. dataset_len (snd kl)) dataloader))"
    by (simp add: validate_batches_totals init count_samples_sum)
next
  assume h: "has_buckets dataloader \<and>
    count_batches_in_combined_loader dataloader \<noteq> 0 \<and>
    count_samples_in_combined_loader dataloader \<noteq> 0"
  from validate_steps_total[OF has_buckets_keys, of dataloader fw "validate_init model"] h
  obtain st where "validate_steps fw (iterate dataloader) (validate_init model) = Inr st"
    by blast
  with h show "\<exists>r. validate fw dataloader model = Inr r"
    by (simp add: validate_def Let_def)
qed

theorem validate_result_witness:
  "validate ex_fw ex_val (ex_model\<lparr>state_dict := 1, training := True\<rparr>) =
     Inr ((1, 70), \<lparr>state_dict = 1, training = False\<rparr>) \<and>
   (1::rat) = sum_list (map fst (val_outcomes ex_fw (map snd (validate_schedule (iterate ex_val)))
                          (ex_model\<lparr>state_dict := 1, training := False\<rparr>)))
              / of_nat (sum_list (map (\<lambda>kl. length (batches (snd kl))) ex_val)) \<and>
   (70::rat) = 100 * of_nat (sum_list (map snd (val_outcomes ex_fw
                          (map snd (validate_schedule (iterate ex_val)))
                          (ex_model\<lparr>state_dict := 1, training := False\<rparr>))))
              / of_nat (sum_list (map (\<lambda>kl. dataset_len (snd kl)) ex_val)) \<and>
   sum_list (map snd (val_outcomes ex_fw (map snd (validate_schedule (iterate ex_val)))
               (ex_model\<lparr>state_dict := 1, training := False\<rparr>))) = 14 \<and>
   sum_list (map (\<lambda>kl. dataset_len (snd kl)) ex_val) = 20 \<and>
   has_buckets ex_val \<and>
   (\<exists>r. validate ex_fw ex_val (ex_model\<lparr>state_dict := 1, training := True\<rparr>) = Inr r)"
  using validate_result[of ex_fw ex_val "ex_model\<lparr>state_dict := 1, training := True\<rparr>" 1 70
          "\<lparr>state_dict = 1, training = False\<rparr>"]
    ex_val_run ex_counts
  by (simp add: ex_val_outcomes) (simp add: ex_val_def)

section \<open>Validation leaves the parameters alone\<close>

lemma validate_batch_model:
  "eval_is_pure fw \<Longrightarrow> \<not> training (v_model st) \<Longrightarrow>
     v_model (validate_batch fw b st) = v_model st"
  by (auto simp: validate_batch_def eval_is_pure_def Let_def split: prod.splits)
     (metis snd_conv)

lemma validate_batches_model:
  "eval_is_pure fw \<Longrightarrow> \<not> training (v_model st) \<Longrightarrow>
     v_model (validate_batches fw bs st) = v_model st"
proof (induction bs arbitrary: st)
  case Nil
  show ?case by (simp add: validate_batches_def)
next
  case (Cons b bs)
  from validate_batch_model[OF Cons.prems, of b]
  have same: "v_model (validate_batch fw b st) = v_model st" .
  with Cons.prems have "\<not> training (v_model (validate_batch fw b st))" by simp
  from Cons.IH[OF Cons.prems(1) this] same show ?case
    by (simp add: validate_batches_Cons)
qed

text \<open>
  C10. Given the framework's contract that a forward pass in evaluation mode leaves
  the module as it was: after any number of validation batches the module is the one
  \<^verbatim>\<open>validate\<close> was given, in evaluation mode; so the module it leaves behind
  has the state dict it had before the call. The validation loop calls no optimizer.
\<close>

theorem validate_keeps_parameters:
  "eval_is_pure fw \<Longrightarrow>
     v_model (validate_batches fw bs (validate_init model)) = model\<lparr>training := False\<rparr> \<and>
     (validate fw dataloader model = Inr (r, m') \<longrightarrow>
        m' = model\<lparr>training := False\<rparr> \<and> state_dict m' = state_dict model)"
proof -
  assume pure: "eval_is_pure fw"
  have init: "v_model (validate_init model) = model\<lparr>training := False\<rparr>"
    by (simp add: validate_init_def)
  then have ev: "\<not> training (v_model (validate_init model))" by simp
  have all: "v_model (validate_batches fw bs (validate_init model)) = model\<lparr>training := False\<rparr>"
    for bs
    using validate_batches_model[OF pure ev, of bs] init by simp
  have "m' = model\<lparr>training := False\<rparr>" if ret: "validate fw dataloader model = Inr (r, m')"
  proof -
    from ret obtain st where
      run: "validate_steps fw (iterate dataloader) (validate_init model) = Inr st" and
      m': "m' = v_model st"
      by (auto simp: validate_def Let_def split: sum.splits if_splits)
    from validate_steps_scheduled[OF run] m' all show ?thesis by simp
  qed
  with all show ?thesis by auto
qed

theorem validate_keeps_parameters_witness:
  "eval_is_pure ex_bn_fw \<and>
   snd (forward ex_bn_fw (ex_model\<lparr>state_dict := 1, training := True\<rparr>) [0]) =
     \<lparr>state_dict = 7, training = True\<rparr> \<and>
   v_model (validate_batches ex_bn_fw [[(0, 1)], [(30, 1)]]
              (validate_init (ex_model\<lparr>state_dict := 1, training := True\<rparr>)))
     = ex_model\<lparr>state_dict := 1, training := False\<rparr> \<and>
   validate ex_bn_fw ex_val (ex_model\<lparr>state_dict := 1, training := True\<rparr>) =
     Inr ((1, 70), \<lparr>state_dict = 1, training = False\<rparr>) \<and>
   state_dict \<lparr>state_dict = (1::nat), training = False\<rparr> =
     state_dict (ex_model\<lparr>state_dict := 1, training := True\<rparr>)"
  using validate_keeps_parameters[OF ex_bn_fw_eval_is_pure,
          of "[[(0, 1)], [(30, 1)]]" "ex_model\<lparr>state_dict := 1, training := True\<rparr>"
             ex_val "(1, 70)" "\<lparr>state_dict = 1, training = False\<rparr>"]
    ex_bn_val_run ex_bn_fw_eval_is_pure
  by simp

section \<open>The average loss of a training epoch\<close>

lemma train_returns:
  assumes ret: "train fw dataloader model opt g w epoch log_freq = Inr (avg_loss, st')"
  shows "train_batches fw epoch (count_samples_in_combined_loader dataloader) log_freq
           (map snd (train_schedule fw g (iterate dataloader)))
           ((train_init model opt g w)\<lparr>input_lengths := input_lengths st', t_rng := t_rng st'\<rparr>)
           = Inr st'"
    and "count_batches_in_combined_loader dataloader \<noteq> 0"
    and "avg_loss = total_loss st' / of_nat (count_batches_in_combined_loader dataloader)"
proof -
  let ?ns = "count_samples_in_combined_loader dataloader"
  let ?cbs = "iterate dataloader"
  let ?st0 = "train_init model opt g w"
  from ret have run: "train_steps fw epoch ?ns log_freq ?cbs ?st0 = Inr st'"
    and nz: "count_batches_in_combined_loader dataloader \<noteq> 0"
    and avg: "avg_loss = total_loss st' / of_nat (count_batches_in_combined_loader dataloader)"
    by (auto simp: train_def Let_def split: sum.splits if_splits)
  have il0: "input_lengths ?st0 = [''2s'', ''3s'', ''4s'']" and g0: "t_rng ?st0 = g"
    by (simp_all add: train_init_def)
  from train_steps_scheduled[OF run]
  have seq0: "train_batches fw epoch ?ns log_freq (map snd (train_schedule fw g ?cbs))
               (?st0\<lparr>input_lengths := fst (drawn fw g [''2s'', ''3s'', ''4s''] (length ?cbs)),
                     t_rng := snd (drawn fw g [''2s'', ''3s'', ''4s''] (length ?cbs))\<rparr>) = Inr st'"
    by (simp add: il0 g0 train_schedule_def)
  from train_batches_keeps[OF seq0] seq0
  show "train_batches fw epoch ?ns log_freq (map snd (train_schedule fw g ?cbs))
          (?st0\<lparr>input_lengths := input_lengths st', t_rng := t_rng st'\<rparr>) = Inr st'"
    by simp
  from nz show "count_batches_in_combined_loader dataloader \<noteq> 0" .
  from avg show "avg_loss = total_loss st' / of_nat (count_batches_in_combined_loader dataloader)" .
qed

lemma train_total:
  assumes "permutes fw" and "has_buckets dataloader" and "log_freq \<noteq> 0"
    and "count_batches_in_combined_loader dataloader \<noteq> 0"
  shows "\<exists>r. train fw dataloader model opt g w epoch log_freq = Inr r"
proof -
  let ?st0 = "train_init model opt g w"
  have "\<forall>cb\<in>set (iterate dataloader). \<forall>l\<in>set (input_lengths ?st0). cb l \<noteq> None"
    using has_buckets_keys[OF assms(2)] by (simp add: train_init_def)
  from train_steps_total[OF assms(3,1) this]
  obtain st' where "train_steps fw epoch (count_samples_in_combined_loader dataloader) log_freq
                      (iterate dataloader) ?st0 = Inr st'"
    by blast
  with assms(4) show ?thesis by (simp add: train_def Let_def)
qed

text \<open>
  C3, as amended. Whenever \<^verbatim>\<open>train\<close> returns, the average it returns is the sum of
  the individual losses of the batches the epoch processed, divided by the static
  batch count (the sum of the lengths of all constituent loaders). It returns for
  every stream that has the three buckets and at least one batch, every shuffle that
  permutes and every log interval other than zero.
\<close>

theorem train_average_loss:
  "(train fw dataloader model opt g w epoch log_freq = Inr (avg_loss, st') \<longrightarrow>
      avg_loss =
        sum_list (batch_losses fw (map snd (train_schedule fw g (iterate dataloader)))
                    (model\<lparr>training := True\<rparr>) opt)
        / of_nat (sum_list (map (\<lambda>kl. length (batches (snd kl))) dataloader))) \<and>
   (permutes fw \<and> has_buckets dataloader \<and> log_freq \<noteq> 0 \<and>
    count_batches_in_combined_loader dataloader \<noteq> 0 \<longrightarrow>
      (\<exists>r. train fw dataloader model opt g w epoch log_freq = Inr r))"
proof (intro conjI impI)
  assume ret: "train fw dataloader model opt g w epoch log_freq = Inr (avg_loss, st')"
  from train_batches_counts[OF train_returns(1)[OF ret]]
  have "total_loss st' =
          sum_list (batch_losses fw (map snd (train_schedule fw g (iterate dataloader)))
                      (model\<lparr>training := True\<rparr>) opt)"
    by (simp add: train_init_def)
  with train_returns(3)[OF ret]
  show "avg_loss =
        sum_list (batch_losses fw (map snd (train_schedule fw g (iterate dataloader)))
                    (model\<lparr>training := True\<rparr>) opt)
        / of_nat (sum_list (map (\<lambda>kl. length (batches (snd kl))) dataloader))"
    by (simp add: count_batches_sum)
next
  assume h: "permutes fw \<and> has_buckets dataloader \<and> log_freq \<noteq> 0 \<and>
    count_batches_in_combined_loader dataloader \<noteq> 0"
  then have a: "permutes fw" and b: "has_buckets dataloader" and c: "log_freq \<noteq> 0"
    and d: "count_batches_in_combined_loader dataloader \<noteq> 0" by simp_all
  show "\<exists>r. train fw dataloader model opt g w epoch log_freq = Inr r"
    by (rule train_total[OF a b c d])
qed

theorem train_average_loss_witness:
  "train ex_fw ex_log ex_model 0 0 [] 2 1 = Inr (5 / 6, ex_log_end) \<and>
   (5 / 6 :: rat) =
     sum_list (batch_losses ex_fw (map snd (train_schedule ex_fw 0 (iterate ex_log)))
                 (ex_model\<lparr>training := True\<rparr>) 0)
     / of_nat (sum_list (map (\<lambda>kl. length (batches (snd kl))) ex_log)) \<and>
   sum_list (batch_losses ex_fw (map snd (train_schedule ex_fw 0 (iterate ex_log)))
               (ex_model\<lparr>training := True\<rparr>) 0) = 5 / 2 \<and>
   permutes ex_fw \<and> has_buckets ex_log \<and> (1::int) \<noteq> 0 \<and>
   count_batches_in_combined_loader ex_log \<noteq> 0 \<and>
   (\<exists>r. train ex_fw ex_log ex_model 0 0 [] 2 1 = Inr r)"
  using train_average_loss[of ex_fw ex_log ex_model 0 0 "[]" 2 1 "5 / 6" ex_log_end]
    ex_log_run ex_fw_permutes ex_counts
  by (simp add: ex_log_losses)

text \<open>
  The claim as stated, for every combined stream, fails for the stream of three
  loaders without a batch: the division by the static batch count raises.
\<close>

theorem train_empty_stream_counterexample:
  "train ex_fw (three_buckets ex_none ex_none ex_none) ex_model 0 0 [] 0 100
     = Inl ZeroDivisionError"
  by code_simp

section \<open>Progress records\<close>

lemma upt_Suc_shift: "[0..<Suc n] = 0 # map Suc [0..<n]"
  by (simp add: upt_conv_Cons map_Suc_upt del: upt_Suc)

lemma train_batch_records:
  assumes "train_batch fw e ns lf b st = Inr st'"
  shows "map snd (stdout st') = map snd (stdout st) @
           (if batch_n st \<noteq> 0 \<and> int (batch_n st) mod lf = 0
            then [(int (batch_n st) * int (length b), int ns)] else [])"
    and "map (\<lambda>r. (fst r, snd (snd r))) (writer st') = map (\<lambda>r. (fst r, snd (snd r))) (writer st) @
           (if batch_n st \<noteq> 0 \<and> int (batch_n st) mod lf = 0
            then [(''training loss'', e * int ns + int (batch_n st) * int (length b))] else [])"
    and "batch_n st' = Suc (batch_n st)"
  using assms
  by (auto simp: train_batch_def Let_def X_of_def split: prod.splits if_splits)

lemma train_batches_records:
  "train_batches fw e ns lf bs st = Inr st' \<Longrightarrow>
     map snd (stdout st') = map snd (stdout st) @
       map (\<lambda>k. (int (batch_n st + k) * int (length (bs ! k)), int ns))
         (filter (\<lambda>k. batch_n st + k \<noteq> 0 \<and> int (batch_n st + k) mod lf = 0) [0..<length bs]) \<and>
     map (\<lambda>r. (fst r, snd (snd r))) (writer st') = map (\<lambda>r. (fst r, snd (snd r))) (writer st) @
       map (\<lambda>k. (''training loss'', e * int ns + int (batch_n st + k) * int (length (bs ! k))))
         (filter (\<lambda>k. batch_n st + k \<noteq> 0 \<and> int (batch_n st + k) mod lf = 0) [0..<length bs])"
proof (induction bs arbitrary: st)
  case Nil
  then show ?case by simp
next
  case (Cons b bs)
  from Cons.prems obtain st1 where
    one: "train_batch fw e ns lf b st = Inr st1" and
    rest: "train_batches fw e ns lf bs st1 = Inr st'"
    by (auto split: sum.splits)
  note r1 = train_batch_records[OF one]
  note ih = Cons.IH[OF rest]
  have shift: "[0..<length (b # bs)] = 0 # map Suc [0..<length bs]"
    using upt_Suc_shift[of "length bs"] by simp
  show ?case
    unfolding shift using ih r1
    by (simp add: filter_map o_def ac_simps del: upt_Suc)
qed

text \<open>
  C6, as amended. In an epoch that returns, a progress record is emitted after the
  batch at position \<open>k\<close> of the schedule exactly when \<open>k\<close>, the number of batches
  processed before it, is not zero and is a multiple of the log interval. The printed
  line holds \<open>k\<close> times the size of that batch as the sample count and the static
  total sample count; the metrics record is tagged \<^verbatim>\<open>training loss\<close> and its step
  is the epoch times the static total plus that sample count. Nothing is said here
  about the loss value of the record.
\<close>

theorem progress_records:
  "train fw dataloader model opt g w epoch log_freq = Inr (avg_loss, st') \<Longrightarrow>
     map snd (stdout st') =
       map (\<lambda>k. (int k * int (length (map snd (train_schedule fw g (iterate dataloader)) ! k)),
                 int (sum_list (map (\<lambda>kl. dataset_len (snd kl)) dataloader))))
         (log_points log_freq (length (train_schedule fw g (iterate dataloader)))) \<and>
     map (\<lambda>r. (fst r, snd (snd r))) (writer st') =
       map (\<lambda>r. (fst r, snd (snd r))) w @
       map (\<lambda>k. (''training loss'',
                 epoch * int (sum_list (map (\<lambda>kl. dataset_len (snd kl)) dataloader)) +
                 int k * int (length (map snd (train_schedule fw g (iterate dataloader)) ! k))))
         (log_points log_freq (length (train_schedule fw g (iterate dataloader))))"
proof -
  assume ret: "train fw dataloader model opt g w epoch log_freq = Inr (avg_loss, st')"
  from train_batches_records[OF train_returns(1)[OF ret]]
  show ?thesis
    by (simp add: train_init_def log_points_def count_samples_sum)
qed

theorem progress_records_witness:
  "train ex_fw ex_log ex_model 0 0 [] 2 1 = Inr (5 / 6, ex_log_end) \<and>
   map snd (stdout ex_log_end) = [(3, 6), (2, 6)] \<and>
   map (\<lambda>r. (fst r, snd (snd r))) (writer ex_log_end) =
     [(''training loss'', 15), (''training loss'', 14)] \<and>
   log_points 1 (length (train_schedule ex_fw 0 (iterate ex_log))) = [1, 2] \<and>
   map (\<lambda>k. (int k * int (length (map snd (train_schedule ex_fw 0 (iterate ex_log)) ! k)),
             int (sum_list (map (\<lambda>kl. dataset_len (snd kl)) ex_log))))
     (log_points 1 (length (train_schedule ex_fw 0 (iterate ex_log)))) = [(3, 6), (2, 6)]"
proof -
  have pts: "log_points 1 (length (train_schedule ex_fw 0 (iterate ex_log))) = [1, 2]"
    by code_simp
  from progress_records[OF ex_log_run]
  have "map snd (stdout ex_log_end) =
       map (\<lambda>k. (int k * int (length (map snd (train_schedule ex_fw 0 (iterate ex_log)) ! k)),
                 int (sum_list (map (\<lambda>kl. dataset_len (snd kl)) ex_log))))
         (log_points 1 (length (train_schedule ex_fw 0 (iterate ex_log))))"
    by blast
  moreover have "map snd (stdout ex_log_end) = [(3, 6), (2, 6)]"
    "map (\<lambda>r. (fst r, snd (snd r))) (writer ex_log_end) =
       [(''training loss'', 15), (''training loss'', 14)]"
    by (simp_all add: ex_log_end_def)
  ultimately show ?thesis using ex_log_run pts by simp
qed

text \<open>
  The claim as stated fails on a stream of three batches of sizes 2, 3, 1 with losses
  1, 3/2, 0 and log interval 1: the record after the second batch holds 5/2, not the
  running average 5/4, and sample count 3, not the 5 samples processed; the record
  after the third batch holds 5/4 and sample count 2.
\<close>

theorem progress_records_counterexample:
  "train ex_fw ex_log ex_model 0 0 [] 2 1 = Inr (5 / 6, ex_log_end) \<and>
   batch_losses ex_fw (map snd (train_schedule ex_fw 0 (iterate ex_log)))
     (ex_model\<lparr>training := True\<rparr>) 0 = [1, 3 / 2, 0] \<and>
   map length (map snd (train_schedule ex_fw 0 (iterate ex_log))) = [2, 3, 1] \<and>
   stdout ex_log_end = [(5 / 2, 3, 6), (5 / 4, 2, 6)] \<and>
   (5 / 2 :: rat) \<noteq> (1 + 3 / 2) / 2 \<and> (3::int) \<noteq> 2 + 3 \<and>
   (5 / 4 :: rat) \<noteq> (1 + 3 / 2 + 0) / 3 \<and> (2::int) \<noteq> 2 + 3 + 1"
proof -
  have "map length (map snd (train_schedule ex_fw 0 (iterate ex_log))) = [2, 3, 1]"
    by code_simp
  then show ?thesis
    using ex_log_run ex_log_losses by (simp add: ex_log_end_def)
qed

section \<open>Only the buckets 2s, 3s and 4s\<close>

lemma train_lengths_cong:
  "\<forall>l\<in>set order. cb l = cb' l \<Longrightarrow>
     train_lengths fw e ns lf cb order st = train_lengths fw e ns lf cb' order st"
  by (induction order arbitrary: st) (auto split: option.splits sum.splits)

lemma train_steps_cong:
  assumes "permutes fw"
  shows "list_all2 same_lengths cbs cbs' \<Longrightarrow>
         set (input_lengths st) \<subseteq> {''2s'', ''3s'', ''4s''} \<Longrightarrow>
         train_steps fw e ns lf cbs st = train_steps fw e ns lf cbs' st"
proof (induction cbs cbs' arbitrary: st rule: list_all2_induct)
  case Nil
  show ?case by simp
next
  case (Cons cb cbs cb' cbs')
  obtain order g1 where sh: "shuffle fw (t_rng st) (input_lengths st) = (order, g1)"
    by (cases "shuffle fw (t_rng st) (input_lengths st)")
  with assms have "mset order = mset (input_lengths st)"
    unfolding permutes_def by (metis fst_conv)
  then have "set order = set (input_lengths st)" by (rule mset_eq_setD)
  with Cons.prems have sub: "set order \<subseteq> {''2s'', ''3s'', ''4s''}" by simp
  with Cons.hyps(1) have "\<forall>l\<in>set order. cb l = cb' l"
    by (auto simp: same_lengths_def)
  note one = train_lengths_cong[OF this]
  define st1 where "st1 = st\<lparr>input_lengths := order, t_rng := g1\<rparr>"
  show ?case
  proof (cases "train_lengths fw e ns lf cb order st1")
    case (Inl err)
    with one[of fw e ns lf st1] have "train_lengths fw e ns lf cb' order st1 = Inl err" by simp
    with sh Inl show ?thesis by (simp add: st1_def)
  next
    case (Inr st2)
    with one[of fw e ns lf st1] have eq: "train_lengths fw e ns lf cb' order st1 = Inr st2"
      by simp
    from train_lengths_keeps[OF Inr] sub have "set (input_lengths st2) \<subseteq> {''2s'', ''3s'', ''4s''}"
      by (simp add: st1_def)
    from Cons.IH[OF this] Inr eq sh show ?thesis by (simp add: st1_def)
  qed
qed

lemma validate_lengths_cong:
  "\<forall>l\<in>set order. cb l = cb' l \<Longrightarrow>
     validate_lengths fw cb order st = validate_lengths fw cb' order st"
  by (induction order arbitrary: st) (auto split: option.splits)

lemma validate_steps_cong:
  "list_all2 same_lengths cbs cbs' \<Longrightarrow> validate_steps fw cbs st = validate_steps fw cbs' st"
proof (induction cbs cbs' arbitrary: st rule: list_all2_induct)
  case Nil
  show ?case by simp
next
  case (Cons cb cbs cb' cbs')
  from Cons.hyps(1) have "\<forall>l\<in>set [''2s'', ''3s'', ''4s'']. cb l = cb' l"
    by (simp add: same_lengths_def)
  from validate_lengths_cong[OF this]
  have "validate_lengths fw cb [''2s'', ''3s'', ''4s''] st =
        validate_lengths fw cb' [''2s'', ''3s'', ''4s''] st" .
  with Cons.IH show ?case by (simp split: sum.splits del: validate_lengths.simps)
qed

lemma train_schedule_tags:
  assumes "permutes fw"
  shows "fst ` set (train_schedule fw g cbs) \<subseteq> {''2s'', ''3s'', ''4s''}"
proof -
  have "\<forall>order\<in>set (draws fw g [''2s'', ''3s'', ''4s''] (length cbs)).
          mset order = mset [''2s'', ''3s'', ''4s'']"
    using draws_permute[OF assms] by blast
  from scheduled_tags[OF this, of cbs] show ?thesis by (simp add: train_schedule_def)
qed

lemma validate_schedule_tags:
  "fst ` set (validate_schedule cbs) \<subseteq> {''2s'', ''3s'', ''4s''}"
proof -
  have "\<forall>order\<in>set (replicate (length cbs) [''2s'', ''3s'', ''4s'']).
          mset order = mset [''2s'', ''3s'', ''4s'']"
    by simp
  from scheduled_tags[OF this, of cbs] show ?thesis by (simp add: validate_schedule_def)
qed

text \<open>
  C9. For a shuffle that permutes: the training loop and the validation loop give the
  same result on two lists of combined steps that agree under 2s, 3s and 4s, whatever
  they hold under other identifiers; a loop that returns is the sequential run over
  its schedule, and every entry of a schedule is from one of the three buckets; yet
  the static batch and sample totals sum over all constituent loaders, so a loader
  added under any identifier adds its batches and samples to them.
\<close>

theorem only_three_buckets_consumed:
  "permutes fw \<Longrightarrow>
     (list_all2 same_lengths cbs cbs' \<longrightarrow>
        train_steps fw epoch n_samples log_freq cbs (train_init model opt g w) =
        train_steps fw epoch n_samples log_freq cbs' (train_init model opt g w) \<and>
        validate_steps fw cbs (validate_init model) = validate_steps fw cbs' (validate_init model)) \<and>
     (train_steps fw epoch n_samples log_freq cbs (train_init model opt g w) = Inr st' \<longrightarrow>
        train_batches fw epoch n_samples log_freq (map snd (train_schedule fw g cbs))
          ((train_init model opt g w)\<lparr>input_lengths := input_lengths st', t_rng := t_rng st'\<rparr>)
          = Inr st') \<and>
     (validate_steps fw cbs (validate_init model) = Inr vst' \<longrightarrow>
        vst' = validate_batches fw (map snd (validate_schedule cbs)) (validate_init model)) \<and>
     fst ` set (train_schedule fw g cbs) \<subseteq> {''2s'', ''3s'', ''4s''} \<and>
     fst ` set (validate_schedule cbs) \<subseteq> {''2s'', ''3s'', ''4s''} \<and>
     count_batches_in_combined_loader (dataloader @ [(k, loader)]) =
       count_batches_in_combined_loader dataloader + length (batches loader) \<and>
     count_samples_in_combined_loader (dataloader @ [(k, loader)]) =
       count_samples_in_combined_loader dataloader + dataset_len loader \<and>
     count_batches_in_combined_loader dataloader =
       sum_list (map (\<lambda>kl. length (batches (snd kl))) dataloader) \<and>
     count_samples_in_combined_loader dataloader =
       sum_list (map (\<lambda>kl. dataset_len (snd kl)) dataloader)"
proof -
  assume p: "permutes fw"
  let ?st0 = "train_init model opt g w"
  have il0: "input_lengths ?st0 = [''2s'', ''3s'', ''4s'']" and g0: "t_rng ?st0 = g"
    by (simp_all add: train_init_def)
  have a: "train_steps fw epoch n_samples log_freq cbs ?st0 =
           train_steps fw epoch n_samples log_freq cbs' ?st0"
    if "list_all2 same_lengths cbs cbs'"
    using train_steps_cong[OF p that, of ?st0] by (simp add: il0)
  have b: "train_batches fw epoch n_samples log_freq (map snd (train_schedule fw g cbs))
          (?st0\<lparr>input_lengths := input_lengths st', t_rng := t_rng st'\<rparr>) = Inr st'"
    if run: "train_steps fw epoch n_samples log_freq cbs ?st0 = Inr st'"
  proof -
    from train_steps_scheduled[OF run]
    have seq0: "train_batches fw epoch n_samples log_freq (map snd (train_schedule fw g cbs))
               (?st0\<lparr>input_lengths := fst (drawn fw g [''2s'', ''3s'', ''4s''] (length cbs)),
                     t_rng := snd (drawn fw g [''2s'', ''3s'', ''4s''] (length cbs))\<rparr>) = Inr st'"
      by (simp add: il0 g0 train_schedule_def)
    from train_batches_keeps[OF seq0] seq0 show ?thesis by simp
  qed
  show ?thesis
    using a b validate_steps_cong[of cbs cbs' fw "validate_init model"]
      validate_steps_scheduled[of fw cbs "validate_init model" vst']
      train_schedule_tags[OF p, of g cbs] validate_schedule_tags[of cbs]
    by (simp add: count_batches_sum count_samples_sum)
qed

theorem only_three_buckets_consumed_witness:
  "permutes ex_fw \<and>
   list_all2 same_lengths (iterate ex_four) (iterate ex_train) \<and>
   train_steps ex_fw 0 3 100 (iterate ex_four) (train_init ex_model 0 0 []) =
     train_steps ex_fw 0 3 100 (iterate ex_train) (train_init ex_model 0 0 []) \<and>
   validate_steps ex_fw (iterate ex_four) (validate_init ex_model) =
     validate_steps ex_fw (iterate ex_train) (validate_init ex_model) \<and>
   train_steps ex_fw 0 3 100 (iterate ex_four) (train_init ex_model 0 0 []) = Inr ex_train_end \<and>
   train_batches ex_fw 0 3 100 (map snd (train_schedule ex_fw 0 (iterate ex_four)))
     ((train_init ex_model 0 0 [])\<lparr>input_lengths := input_lengths ex_train_end,
                                      t_rng := t_rng ex_train_end\<rparr>) = Inr ex_train_end \<and>
   validate_steps ex_fw (iterate ex_four) (validate_init ex_model) = Inr ex_vend \<and>
   ex_vend = validate_batches ex_fw (map snd (validate_schedule (iterate ex_four)))
               (validate_init ex_model) \<and>
   train_schedule ex_fw 0 (iterate ex_four) = [(''2s'', [(0, 1), (1, 1)])] \<and>
   validate_schedule (iterate ex_four) = [(''2s'', [(0, 1), (1, 1)])] \<and>
   count_batches_in_combined_loader ex_four = count_batches_in_combined_loader ex_train + 1 \<and>
   train ex_fw ex_train ex_model 0 0 [] 0 100 = Inr (1, ex_train_end) \<and>
   train ex_fw ex_four ex_model 0 0 [] 0 100 = Inr (1 / 2, ex_train_end) \<and>
   batch_n ex_train_end = 1"
  using only_three_buckets_consumed[OF ex_fw_permutes,
          of "iterate ex_four" "iterate ex_train" 0 3 100 ex_model 0 0 "[]"
             ex_train_end ex_vend ex_train "''5s''" "\<lparr>batches = [[(5, 1)]], dataset_len = 1\<rparr>"]
    ex_four_runs ex_four_loops ex_fw_permutes
  by (simp add: ex_four_def ex_train_end_def)

section \<open>Checkpoints\<close>

lemma val_accs_Nil: "val_accs [] = []"
  by (simp add: val_accs_def)

lemma train_batch_val_accs:
  "train_batch fw e ns lf b st = Inr st' \<Longrightarrow> val_accs (writer st') = val_accs (writer st)"
  by (auto simp: train_batch_def Let_def val_accs_def split: prod.splits if_splits)

lemma train_batches_val_accs:
  "train_batches fw e ns lf bs st = Inr st' \<Longrightarrow> val_accs (writer st') = val_accs (writer st)"
proof (induction bs arbitrary: st)
  case Nil
  then show ?case by simp
next
  case (Cons b bs)
  then show ?case
    by (cases "train_batch fw e ns lf b st") (auto dest: train_batch_val_accs)
qed

lemma train_val_accs:
  "train fw dl m opt g w e lf = Inr (avg, ts) \<Longrightarrow> val_accs (writer ts) = val_accs w"
  using train_batches_val_accs[OF train_returns(1)] by (fastforce simp: train_init_def)

lemma checkpoint_effect:
  "saved (checkpoint s t acc st) =
     saved st @ (if acc > best_acc st then [(Best_model s, state_dict (d_model st))] else [])
       @ [(Latest_model, state_dict (d_model st))] \<and>
   best_acc (checkpoint s t acc st) = max (best_acc st) acc \<and>
   best_epoch (checkpoint s t acc st) = (if acc > best_acc st then t else best_epoch st) \<and>
   d_writer (checkpoint s t acc st) = d_writer st \<and> d_model (checkpoint s t acc st) = d_model st"
  by (simp add: checkpoint_def Let_def max_def)

lemma run_epoch_effect:
  assumes "run_epoch fw trl vl s t st = Inr st'"
  shows "\<exists>train_loss ts val_loss val_acc m.
     train fw (trl t) (d_model st) (d_optim st) (d_rng st) (d_writer st) t 100
       = Inr (train_loss, ts) \<and>
     validate fw vl (t_model ts) = Inr ((val_loss, val_acc), m) \<and>
     saved st' = saved st @ (if val_acc > best_acc st then [(Best_model s, state_dict m)] else [])
                  @ [(Latest_model, state_dict m)] \<and>
     best_acc st' = max (best_acc st) val_acc \<and>
     best_epoch st' = (if val_acc > best_acc st then t else best_epoch st) \<and>
     val_accs (d_writer st') = val_accs (d_writer st) @ [val_acc]"
proof -
  from assms obtain train_loss ts val_loss val_acc m where
    tr: "train fw (trl t) (d_model st) (d_optim st) (d_rng st) (d_writer st) t 100
           = Inr (train_loss, ts)" and
    va: "validate fw vl (t_model ts) = Inr ((val_loss, val_acc), m)" and
    st': "st' = checkpoint s t val_acc
                  (st\<lparr>d_model := m, d_optim := t_optim ts, d_rng := t_rng ts,
                      d_writer := writer ts @
                        [(''train_loss'', train_loss, t), (''val_loss'', val_loss, t),
                         (''val_acc'', val_acc, t),
                         (''train - val loss'', train_loss - val_loss, t)],
                      d_stdout := d_stdout st @ stdout ts\<rparr>)"
    by (auto simp: run_epoch_def split: sum.splits prod.splits)
  have "val_accs (d_writer st') = val_accs (d_writer st) @ [val_acc]"
    unfolding st' using train_val_accs[OF tr]
    by (simp add: checkpoint_effect) (simp add: val_accs_def)
  with tr va st' show ?thesis
    by (simp add: checkpoint_effect)
qed

lemma epochs_effect:
  "epochs fw trl vl s t n st = Inr st' \<Longrightarrow>
     \<exists>accs. length accs = nat (n - t) \<and>
       val_accs (d_writer st') = val_accs (d_writer st) @ accs \<and>
       map fst (saved st') = map fst (saved st) @ ckpt_kinds s (best_acc st) accs \<and>
       best_acc st' = fold max accs (best_acc st)"
proof (induction fw trl vl s t n st rule: epochs.induct)
  case (1 fw trl vl s t n st)
  show ?case
  proof (cases "t < n")
    case False
    with "1.prems" have "st' = st" by (simp add: epochs.simps)
    with False show ?thesis by simp
  next
    case True
    with "1.prems" obtain st1 where
      one: "run_epoch fw trl vl s t st = Inr st1" and
      rest: "epochs fw trl vl s (t + 1) n st1 = Inr st'"
      by (auto simp: epochs.simps[of fw trl vl s t n st] split: sum.splits)
    from run_epoch_effect[OF one] obtain a where
      a: "val_accs (d_writer st1) = val_accs (d_writer st) @ [a]"
         "map fst (saved st1) = map fst (saved st) @ ckpt_kinds s (best_acc st) [a]"
         "best_acc st1 = max (best_acc st) a"
      by auto
    from "1.IH"[OF True one rest] obtain accs where
      r: "length accs = nat (n - (t + 1))"
         "val_accs (d_writer st') = val_accs (d_writer st1) @ accs"
         "map fst (saved st') = map fst (saved st1) @ ckpt_kinds s (best_acc st1) accs"
         "best_acc st' = fold max accs (best_acc st1)"
      by blast
    have "length (a # accs) = nat (n - t)" using r(1) True by simp
    moreover have "val_accs (d_writer st') = val_accs (d_writer st) @ a # accs"
      using a r by simp
    moreover have "map fst (saved st') = map fst (saved st) @ ckpt_kinds s (best_acc st) (a # accs)"
      using a r by simp
    moreover have "best_acc st' = fold max (a # accs) (best_acc st)"
      using a r by (simp add: max.commute)
    ultimately show ?thesis by blast
  qed
qed

lemma fold_max_ge: "(b::rat) \<le> fold max accs b"
proof (induction accs arbitrary: b)
  case Nil
  show ?case by simp
next
  case (Cons a accs)
  have "b \<le> max a b" by simp
  also have "\<dots> \<le> fold max accs (max a b)" by (rule Cons.IH)
  finally show ?case by simp
qed

text \<open>
  C2. In an epoch that completes, the best snapshot is saved exactly when the epoch's
  validation accuracy exceeds the best so far, the latest snapshot is saved in every
  case, both hold the model as the epoch leaves it, and the best accuracy becomes the
  maximum of the two, so it never decreases. Over a whole run that completes, the
  files saved are, in order, those the rule prescribes for the recorded validation
  accuracies starting from a best of 0, one accuracy per epoch, and the best accuracy
  at the end is their maximum with 0.
\<close>

theorem best_and_latest_checkpoints:
  "(run_epoch fw trl vl s t st = Inr st1 \<longrightarrow>
      (\<exists>train_loss ts val_loss val_acc m.
         train fw (trl t) (d_model st) (d_optim st) (d_rng st) (d_writer st) t 100
           = Inr (train_loss, ts) \<and>
         validate fw vl (t_model ts) = Inr ((val_loss, val_acc), m) \<and>
         saved st1 = saved st @ (if val_acc > best_acc st then [(Best_model s, state_dict m)] else [])
                       @ [(Latest_model, state_dict m)] \<and>
         best_acc st1 = max (best_acc st) val_acc \<and>
         best_epoch st1 = (if val_acc > best_acc st then t else best_epoch st)) \<and>
      best_acc st \<le> best_acc st1) \<and>
   (main fw files checkpt s n trl vl model new_optimizer g = Inr fin \<longrightarrow>
      map fst (saved fin) = ckpt_kinds s 0 (val_accs (d_writer fin)) \<and>
      length (val_accs (d_writer fin)) = nat (n - s) \<and>
      best_acc fin = fold max (val_accs (d_writer fin)) 0)"
proof (intro conjI impI)
  assume one: "run_epoch fw trl vl s t st = Inr st1"
  from run_epoch_effect[OF one]
  show "\<exists>train_loss ts val_loss val_acc m.
         train fw (trl t) (d_model st) (d_optim st) (d_rng st) (d_writer st) t 100
           = Inr (train_loss, ts) \<and>
         validate fw vl (t_model ts) = Inr ((val_loss, val_acc), m) \<and>
         saved st1 = saved st @ (if val_acc > best_acc st then [(Best_model s, state_dict m)] else [])
                       @ [(Latest_model, state_dict m)] \<and>
         best_acc st1 = max (best_acc st) val_acc \<and>
         best_epoch st1 = (if val_acc > best_acc st then t else best_epoch st)"
    by blast
  from run_epoch_effect[OF one] show "best_acc st \<le> best_acc st1" by auto
next
  assume ret: "main fw files checkpt s n trl vl model new_optimizer g = Inr fin"
  then obtain model' where
    run: "epochs fw trl vl s s n (driver_init model' (new_optimizer model') g) = Inr fin"
    by (auto simp: main_def split: sum.splits)
  from epochs_effect[OF run] obtain accs where
    r: "length accs = nat (n - s)" "val_accs (d_writer fin) = accs"
       "map fst (saved fin) = ckpt_kinds s 0 accs" "best_acc fin = fold max accs 0"
    by (auto simp: driver_init_def val_accs_Nil)
  then show "map fst (saved fin) = ckpt_kinds s 0 (val_accs (d_writer fin))"
    and "length (val_accs (d_writer fin)) = nat (n - s)"
    and "best_acc fin = fold max (val_accs (d_writer fin)) 0"
    by simp_all
qed

theorem best_and_latest_checkpoints_witness:
  "run_epoch ex_fw (\<lambda>t. ex_train) ex_val 0 0 (driver_init ex_model 0 0) = Inr ex_first \<and>
   best_acc (driver_init ex_model (0::nat) (0::nat)) \<le> best_acc ex_first \<and>
   main ex_fw Map.empty None 0 5 (\<lambda>t. ex_train) ex_val ex_model (\<lambda>m. 0) 0 = Inr ex_fin \<and>
   val_accs (d_writer ex_fin) = [70, 65, 80, 75, 90] \<and>
   map fst (saved ex_fin) = ckpt_kinds 0 0 [70, 65, 80, 75, 90] \<and>
   map fst (saved ex_fin) =
     [Best_model 0, Latest_model, Latest_model, Best_model 0, Latest_model, Latest_model,
      Best_model 0, Latest_model] \<and>
   best_acc ex_fin = fold max [70, 65, 80, 75, 90] 0"
proof -
  have run: "main ex_fw Map.empty None 0 5 (\<lambda>t. ex_train) ex_val ex_model (\<lambda>m. 0) 0 = Inr ex_fin"
    using ex_run_result by (simp add: ex_run_def)
  have accs: "val_accs (d_writer ex_fin) = [70, 65, 80, 75, 90]"
    by (simp add: ex_fin_def val_accs_def)
  from best_and_latest_checkpoints[of ex_fw "\<lambda>t. ex_train" ex_val 0 0 "driver_init ex_model 0 0"
         ex_first Map.empty None 5 ex_model "\<lambda>m. 0" 0 ex_fin] ex_first_epoch run
  have "best_acc (driver_init ex_model (0::nat) (0::nat)) \<le> best_acc ex_first"
    and "map fst (saved ex_fin) = ckpt_kinds 0 0 (val_accs (d_writer ex_fin))"
    and "best_acc ex_fin = fold max (val_accs (d_writer ex_fin)) 0"
    by simp_all
  moreover have "map fst (saved ex_fin) =
     [Best_model 0, Latest_model, Latest_model, Best_model 0, Latest_model, Latest_model,
      Best_model 0, Latest_model]"
    by (simp add: ex_fin_def)
  ultimately show ?thesis using ex_first_epoch run accs by simp
qed

end
